theory Spec2Isabelle
  imports Main "HOL-Library.Sublist"
begin

section \<open>JavaScript strings\<close>

text \<open>
  Strings are lists of characters. The template literals of the source print a
  non-negative integer counter or slot in decimal; \<open>string_of_nat\<close> is that printing.
\<close>

definition digit_char :: "nat \<Rightarrow> char" where
  "digit_char d = ''0123456789'' ! d"

fun string_of_nat :: "nat \<Rightarrow> string" where
  "string_of_nat n =
     (if n < 10 then [digit_char n] else string_of_nat (n div 10) @ [digit_char (n mod 10)])"

declare string_of_nat.simps [simp del]

definition is_digit :: "char \<Rightarrow> bool" where
  "is_digit c = (c \<in> set ''0123456789'')"

text \<open>Reading a decimal numeral back: the value of a string of digits.\<close>

definition digit_val :: "char \<Rightarrow> nat" where
  "digit_val c = of_char c - 48"

definition nat_of_string :: "string \<Rightarrow> nat" where
  "nat_of_string s = foldl (\<lambda>a c. 10 * a + digit_val c) 0 s"

text \<open>\<open>s.startsWith(p)\<close>.\<close>

definition startsWith :: "string \<Rightarrow> string \<Rightarrow> bool" where
  "startsWith s p = (take (length p) s = p)"

text \<open>\<open>s.indexOf(p)\<close>: the position of the first occurrence of \<open>p\<close>, \<open>None\<close> for -1.\<close>

fun indexOfFrom :: "nat \<Rightarrow> string \<Rightarrow> string \<Rightarrow> nat option" where
  "indexOfFrom i [] p = (if p = [] then Some i else None)"
| "indexOfFrom i (c # cs) p =
     (if startsWith (c # cs) p then Some i else indexOfFrom (Suc i) cs p)"

definition indexOf :: "string \<Rightarrow> string \<Rightarrow> nat option" where
  "indexOf s p = indexOfFrom 0 s p"

text \<open>\<open>s.replace(a, b)\<close> with a one-character string pattern: only the first
  occurrence is replaced.\<close>

fun replaceFirst :: "char \<Rightarrow> char \<Rightarrow> string \<Rightarrow> string" where
  "replaceFirst a b [] = []"
| "replaceFirst a b (c # cs) = (if c = a then b # cs else c # replaceFirst a b cs)"

section \<open>The intermediate representation\<close>

type_synonym XrefId = nat

text \<open>
  A \<open>SemanticVariable\<close> is a mutable object that several \<open>Variable\<close> operations may
  share, so variables live in a heap and operations hold a reference.
\<close>

type_synonym VarRef = nat

datatype SemanticVariableKind = Context | Identifier string | SavedView

record SemanticVariable =
  kind :: SemanticVariableKind
  name :: "string option"

datatype CompatibilityMode = Normal | TemplateDefinitionBuilder

datatype UnitKind = ViewCompilationUnit | HostBindingCompilationUnit

datatype Namespace = HTML | SVG | Math

datatype Expr = ReadVariableExpr XrefId "string option" | OtherExpr

text \<open>
  An operation is its kind-specific fields together with the expressions that
  \<open>ir.visitExpressionsInOp\<close> visits, in visiting order. The fields are, in order:
  \<^item> \<open>Property\<close>, \<open>HostProperty\<close>: \<open>name\<close>, \<open>isAnimationTrigger\<close>;
  \<^item> \<open>Listener\<close>: \<open>name\<close>, \<open>handlerFnName\<close>, \<open>slot\<close>, \<open>tag\<close>,
    \<open>isAnimationListener\<close>, \<open>animationPhase\<close>;
  \<^item> \<open>Variable\<close>: \<open>xref\<close>, \<open>variable\<close>;
  \<^item> \<open>Template\<close>: \<open>xref\<close>, \<open>tag\<close>, \<open>namespace\<close>, \<open>slot\<close>, and the view that
    \<open>unit.job.views.get(op.xref)\<close> returns (\<open>None\<close> when the table has no entry): views form
    a tree, each one the child of one \<open>Template\<close> operation;
  \<^item> \<open>StyleProp\<close>, \<open>ClassProp\<close>: \<open>name\<close>.
  Every other kind of operation is \<open>OtherOp\<close>. A unit is its \<open>fnName\<close> and the
  operations that \<open>unit.ops()\<close> yields, in order.
\<close>

datatype CompilationUnit = CompilationUnit (fnName: "string option") (unitOps: "Op list")
and Op = Op (opKind: OpKind) (opExprs: "Expr list")
and OpKind =
    Property string bool
  | HostProperty string bool
  | Listener string "string option" "nat option" "string option" bool "string option"
  | Variable XrefId VarRef
  | Template XrefId string Namespace "nat option" "CompilationUnit option"
  | StyleProp string
  | ClassProp string
  | OtherOp

record CompilationJob =
  componentName :: string
  fnSuffix :: string
  compatibility :: CompatibilityMode
  rootKind :: UnitKind
  root :: CompilationUnit

text \<open>
  The functions imported from other files of the compiler are parameters of the phase.
\<close>

record Helpers =
  sanitizeIdentifier :: "string \<Rightarrow> string"
  hyphenate :: "string \<Rightarrow> string"
  prefixWithNamespace :: "string \<Rightarrow> Namespace \<Rightarrow> string"

text \<open>
  The state of the phase: the heap of variable objects and the counter object
  \<open>state = {index: number}\<close> that one job shares across all its views.
\<close>

record NamingState =
  variables :: "VarRef \<Rightarrow> SemanticVariable"
  index :: nat

datatype error = Error string | TypeError string

section \<open>The naming phase\<close>

definition freshName :: "SemanticVariableKind \<Rightarrow> nat \<Rightarrow> string" where
  "freshName k n =
     (case k of
        Context \<Rightarrow> ''ctx_r'' @ string_of_nat n
      | Identifier ident \<Rightarrow> ident @ ''_'' @ string_of_nat n
      | _ \<Rightarrow> ''_r'' @ string_of_nat n)"

definition getVariableName :: "VarRef \<Rightarrow> NamingState \<Rightarrow> string \<times> NamingState" where
  "getVariableName v st =
     (case name (variables st v) of
        Some n \<Rightarrow> (n, st)
      | None \<Rightarrow>
          (let n = freshName (kind (variables st v)) (index st)
           in (n, st\<lparr>variables := (variables st)(v := (variables st v)\<lparr>name := Some n\<rparr>),
                      index := index st + 1\<rparr>)))"

definition normalizeStylePropName :: "Helpers \<Rightarrow> string \<Rightarrow> string" where
  "normalizeStylePropName H nm = (if startsWith nm ''--'' then nm else hyphenate H nm)"

definition stripImportant :: "string \<Rightarrow> string" where
  "stripImportant nm =
     (case indexOf nm ''!important'' of Some importantIndex \<Rightarrow> take importantIndex nm | None \<Rightarrow> nm)"

text \<open>\<open>`${x}`\<close> of a \<open>string | null\<close>.\<close>

definition str_or_null :: "string option \<Rightarrow> string" where
  "str_or_null s = (case s of None \<Rightarrow> ''null'' | Some t \<Rightarrow> t)"

text \<open>\<open>op.tag ? op.tag.replace('-', '_') : 'host'\<close>: \<open>null\<close> and the empty string are falsy.\<close>

definition safeTagName :: "string option \<Rightarrow> string" where
  "safeTagName tag =
     (case tag of
        None \<Rightarrow> ''host''
      | Some t \<Rightarrow> if t = [] then ''host'' else replaceFirst (CHR ''-'') (CHR ''_'') t)"

text \<open>
  The body of the first loop of \<open>addNamesToView\<close> for every kind of operation but
  \<open>Template\<close>: the renamed operation, the table \<open>varNames\<close> and the state.
  \<open>unit.job.compatibility\<close> is truthy for \<open>TemplateDefinitionBuilder\<close> only.
\<close>

fun nameOp ::
  "Helpers \<Rightarrow> CompatibilityMode \<Rightarrow> UnitKind \<Rightarrow> string \<Rightarrow> string \<Rightarrow> bool \<Rightarrow> OpKind \<Rightarrow>
   (XrefId \<rightharpoonup> string) \<Rightarrow> NamingState \<Rightarrow> error + (OpKind \<times> (XrefId \<rightharpoonup> string) \<times> NamingState)"
where
  "nameOp H jc uk fn baseName tdb (Property nm anim) vn st =
     Inr (Property (if anim then ''@'' @ nm else nm) anim, vn, st)"
| "nameOp H jc uk fn baseName tdb (HostProperty nm anim) vn st =
     Inr (HostProperty (if anim then ''@'' @ nm else nm) anim, vn, st)"
| "nameOp H jc uk fn baseName tdb (Listener nm handler slot tag isAnim phase) vn st =
     (if jc = TemplateDefinitionBuilder \<and> uk = HostBindingCompilationUnit then
        Inr (Listener nm
               (Some (sanitizeIdentifier H (baseName @ ''_'' @ nm @ ''_HostBindingHandler'')))
               slot tag isAnim phase, vn, st)
      else if handler = None then
        (case slot of
           None \<Rightarrow> Inl (Error ''Expected a slot to be assigned'')
         | Some s \<Rightarrow>
             if isAnim then
               Inr (Listener (''@'' @ nm @ ''.'' @ str_or_null phase)
                      (Some (sanitizeIdentifier H
                         (fn @ ''_'' @ safeTagName tag @ ''_animation_'' @ nm @ ''_'' @
                          str_or_null phase @ ''_'' @ string_of_nat s @ ''_listener'')))
                      slot tag isAnim phase, vn, st)
             else
               Inr (Listener nm
                      (Some (sanitizeIdentifier H
                         (fn @ ''_'' @ safeTagName tag @ ''_'' @ nm @ ''_'' @
                          string_of_nat s @ ''_listener'')))
                      slot tag isAnim phase, vn, st))
      else Inr (Listener nm handler slot tag isAnim phase, vn, st))"
| "nameOp H jc uk fn baseName tdb (Variable xref v) vn st =
     (case getVariableName v st of (n, st') \<Rightarrow> Inr (Variable xref v, vn(xref \<mapsto> n), st'))"
| "nameOp H jc uk fn baseName tdb (StyleProp nm) vn st =
     (let nm1 = normalizeStylePropName H nm
      in Inr (StyleProp (if tdb then stripImportant nm1 else nm1), vn, st))"
| "nameOp H jc uk fn baseName tdb (ClassProp nm) vn st =
     Inr (ClassProp (if tdb then stripImportant nm else nm), vn, st)"
| "nameOp H jc uk fn baseName tdb k vn st = Inr (k, vn, st)"

text \<open>
  The second loop of \<open>addNamesToView\<close>: every \<open>ReadVariableExpr\<close> whose name is
  still \<open>null\<close> takes the name that \<open>varNames\<close> holds for its xref; the first one whose
  xref has no entry throws.
\<close>

fun resolveExpr :: "(XrefId \<rightharpoonup> string) \<Rightarrow> Expr \<Rightarrow> error + Expr" where
  "resolveExpr vn (ReadVariableExpr xref None) =
     (case vn xref of
        None \<Rightarrow> Inl (Error (''Variable '' @ string_of_nat xref @ '' not yet named''))
      | Some n \<Rightarrow> Inr (ReadVariableExpr xref (Some n)))"
| "resolveExpr vn e = Inr e"

fun resolveExprs :: "(XrefId \<rightharpoonup> string) \<Rightarrow> Expr list \<Rightarrow> error + Expr list" where
  "resolveExprs vn [] = Inr []"
| "resolveExprs vn (e # es) =
     (case resolveExpr vn e of
        Inl err \<Rightarrow> Inl err
      | Inr e' \<Rightarrow> (case resolveExprs vn es of Inl err \<Rightarrow> Inl err | Inr es' \<Rightarrow> Inr (e' # es')))"

fun resolveOps :: "(XrefId \<rightharpoonup> string) \<Rightarrow> Op list \<Rightarrow> error + Op list" where
  "resolveOps vn [] = Inr []"
| "resolveOps vn (Op k es # rest) =
     (case resolveExprs vn es of
        Inl err \<Rightarrow> Inl err
      | Inr es' \<Rightarrow>
          (case resolveOps vn rest of Inl err \<Rightarrow> Inl err | Inr rest' \<Rightarrow> Inr (Op k es' # rest')))"

text \<open>
  \<open>addNamesToView\<close>, and its first loop \<open>addNamesToOps\<close> over the operations that are
  left, with the unit's function name, the table \<open>varNames\<close> so far and the state. A
  \<open>Template\<close> operation names its child view, a \<open>ViewCompilationUnit\<close>, with the same
  state. Reading \<open>fnName\<close> of a child view that the table does not hold is a
  \<open>TypeError\<close>.
\<close>

fun addNamesToView ::
  "Helpers \<Rightarrow> string \<Rightarrow> CompatibilityMode \<Rightarrow> UnitKind \<Rightarrow> CompilationUnit \<Rightarrow> string \<Rightarrow>
   NamingState \<Rightarrow> bool \<Rightarrow> error + (CompilationUnit \<times> NamingState)"
and addNamesToOps ::
  "Helpers \<Rightarrow> string \<Rightarrow> CompatibilityMode \<Rightarrow> UnitKind \<Rightarrow> string \<Rightarrow> string \<Rightarrow> bool \<Rightarrow>
   Op list \<Rightarrow> (XrefId \<rightharpoonup> string) \<Rightarrow> NamingState \<Rightarrow>
   error + (Op list \<times> (XrefId \<rightharpoonup> string) \<times> NamingState)"
where
  "addNamesToView H sfx jc uk (CompilationUnit fnm ops) baseName st tdb =
     (let fn = (case fnm of
                  None \<Rightarrow> sanitizeIdentifier H (baseName @ ''_'' @ sfx)
                | Some f \<Rightarrow> f)
      in case addNamesToOps H sfx jc uk fn baseName tdb ops Map.empty st of
           Inl err \<Rightarrow> Inl err
         | Inr (ops1, varNames, st1) \<Rightarrow>
             (case resolveOps varNames ops1 of
                Inl err \<Rightarrow> Inl err
              | Inr ops2 \<Rightarrow> Inr (CompilationUnit (Some fn) ops2, st1)))"
| "addNamesToOps H sfx jc uk fn baseName tdb [] vn st = Inr ([], vn, st)"
| "addNamesToOps H sfx jc uk fn baseName tdb (Op (Template xref tag ns slot child) es # rest) vn st =
     (if uk \<noteq> ViewCompilationUnit then
        Inl (Error ''AssertionError: must be compiling a component'')
      else
        (case slot of
           None \<Rightarrow> Inl (Error ''Expected slot to be assigned'')
         | Some s \<Rightarrow>
             (case child of
                None \<Rightarrow> Inl (TypeError ''Cannot read properties of undefined'')
              | Some childView \<Rightarrow>
                  (case addNamesToView H sfx jc ViewCompilationUnit childView
                          (baseName @ ''_'' @ prefixWithNamespace H tag ns @ ''_'' @ string_of_nat s)
                          st tdb of
                     Inl err \<Rightarrow> Inl err
                   | Inr (childView', st') \<Rightarrow>
                       (case addNamesToOps H sfx jc uk fn baseName tdb rest vn st' of
                          Inl err \<Rightarrow> Inl err
                        | Inr (rest', vn', st'') \<Rightarrow>
                            Inr (Op (Template xref tag ns slot (Some childView')) es # rest',
                                 vn', st''))))))"
| "addNamesToOps H sfx jc uk fn baseName tdb (Op k es # rest) vn st =
     (case nameOp H jc uk fn baseName tdb k vn st of
        Inl err \<Rightarrow> Inl err
      | Inr (k', vn', st') \<Rightarrow>
          (case addNamesToOps H sfx jc uk fn baseName tdb rest vn' st' of
             Inl err \<Rightarrow> Inl err
           | Inr (rest', vn'', st'') \<Rightarrow> Inr (Op k' es # rest', vn'', st'')))"

text \<open>
  \<open>phaseNaming\<close>: the root unit is named from the component name, with a fresh
  counter object and the compatibility flag of the job.
\<close>

definition phaseNaming ::
  "Helpers \<Rightarrow> CompilationJob \<Rightarrow> (VarRef \<Rightarrow> SemanticVariable) \<Rightarrow>
   error + (CompilationUnit \<times> NamingState)"
where
  "phaseNaming H cpl heap =
     addNamesToView H (fnSuffix cpl) (compatibility cpl) (rootKind cpl) (root cpl)
       (componentName cpl) \<lparr>variables = heap, index = 0\<rparr>
       (compatibility cpl = TemplateDefinitionBuilder)"

text \<open>Whether an operation is a \<open>Template\<close> operation.\<close>

definition isTemplate :: "OpKind \<Rightarrow> bool" where
  "isTemplate k = (case k of Template _ _ _ _ _ \<Rightarrow> True | _ \<Rightarrow> False)"

text \<open>
  For the examples: helpers that return the name they are given, and a heap of unnamed
  context variables with the counter at zero.
\<close>

definition plainHelpers :: Helpers where
  "plainHelpers = \<lparr>sanitizeIdentifier = (\<lambda>s. s), hyphenate = (\<lambda>s. s), prefixWithNamespace = (\<lambda>t n. t)\<rparr>"

definition freshState :: NamingState where
  "freshState = \<lparr>variables = (\<lambda>v. \<lparr>kind = Context, name = None\<rparr>), index = 0\<rparr>"

section \<open>The callback scheduler\<close>

text \<open>
  \<open>getCallbackScheduler\<close> returns a function that, called with a callback, sets the
  local variable \<open>executeCallback\<close> of that call to \<open>true\<close> and registers one closure
  with \<open>setTimeout\<close> and, when \<open>requestAnimationFrame\<close> is available, one with it.
  Each closure returns when \<open>executeCallback\<close> is \<open>false\<close>, and otherwise sets it to
  \<open>false\<close> and calls the callback. The state of the model: the \<open>executeCallback\<close>
  variable of every call (calls are numbered), the closures that are registered and have
  not fired, and the log of the calls whose callback has run. \<open>schedule\<close> is the
  returned function, \<open>runTask\<close> the body of both closures.
\<close>

datatype TimerSource = SetTimeout | RequestAnimationFrame

record SchedulerState =
  executeCallback :: "nat \<Rightarrow> bool"
  pending :: "(nat \<times> TimerSource) list"
  nextCall :: nat
  executed :: "nat list"

definition initialScheduler :: SchedulerState where
  "initialScheduler = \<lparr>executeCallback = (\<lambda>c. False), pending = [], nextCall = 0, executed = []\<rparr>"

definition schedule :: "bool \<Rightarrow> SchedulerState \<Rightarrow> SchedulerState" where
  "schedule hasRequestAnimationFrame st =
     (let c = nextCall st
      in st\<lparr>executeCallback := (executeCallback st)(c := True),
            pending := pending st @ [(c, SetTimeout)] @
                       (if hasRequestAnimationFrame then [(c, RequestAnimationFrame)] else []),
            nextCall := c + 1\<rparr>)"

definition runTask :: "nat \<Rightarrow> SchedulerState \<Rightarrow> SchedulerState" where
  "runTask c st =
     (if \<not> executeCallback st c then st
      else st\<lparr>executeCallback := (executeCallback st)(c := False), executed := executed st @ [c]\<rparr>)"

text \<open>
  The environment either calls the scheduling function or fires a registered closure,
  in any order; a timer fires a closure once.
\<close>

datatype SchedulerEvent = Schedule | Fire nat

fun schedulerStep :: "bool \<Rightarrow> SchedulerEvent \<Rightarrow> SchedulerState \<Rightarrow> SchedulerState" where
  "schedulerStep hasRequestAnimationFrame Schedule st = schedule hasRequestAnimationFrame st"
| "schedulerStep hasRequestAnimationFrame (Fire i) st =
     (if i < length (pending st)
      then runTask (fst (pending st ! i)) (st\<lparr>pending := take i (pending st) @ drop (Suc i) (pending st)\<rparr>)
      else st)"

fun runScheduler :: "bool \<Rightarrow> SchedulerEvent list \<Rightarrow> SchedulerState \<Rightarrow> SchedulerState" where
  "runScheduler hasRequestAnimationFrame [] st = st"
| "runScheduler hasRequestAnimationFrame (e # es) st =
     runScheduler hasRequestAnimationFrame es (schedulerStep hasRequestAnimationFrame e st)"

text \<open>
  The closures of a call that are registered and have not fired, and the number of closures
  that a call registers.
\<close>

definition pendingOf :: "SchedulerState \<Rightarrow> nat \<Rightarrow> nat" where
  "pendingOf st c = length (filter (\<lambda>p. fst p = c) (pending st))"

definition registered :: "bool \<Rightarrow> nat" where
  "registered hasRequestAnimationFrame = (if hasRequestAnimationFrame then 2 else 1)"

text \<open>
  The invariant of the scheduler: no callback is logged twice; a call that has not been made
  has no closure, no flag and no log entry; a call that has been made has its flag set exactly
  as long as all of its closures are pending, and its callback is logged exactly when one of
  them has fired.
\<close>

definition firingInv :: "bool \<Rightarrow> SchedulerState \<Rightarrow> bool" where
  "firingInv hasRaf st \<longleftrightarrow>
     distinct (executed st) \<and>
     (\<forall>c. nextCall st \<le> c \<longrightarrow>
          c \<notin> set (executed st) \<and> \<not> executeCallback st c \<and> pendingOf st c = 0) \<and>
     (\<forall>c. c < nextCall st \<longrightarrow>
          pendingOf st c \<le> registered hasRaf \<and>
          (executeCallback st c \<longleftrightarrow> pendingOf st c = registered hasRaf) \<and>
          (c \<in> set (executed st) \<longleftrightarrow> pendingOf st c < registered hasRaf))"

section \<open>The block parser\<close>

text \<open>
  The parser of control-flow and deferred blocks is exercised by the tests of the template
  transform; its own functions are modelled here from the specification and from the messages
  those tests expect.
\<close>





text \<open>
  Modelled from the spec: the binding parser, which is not among the sources. It turns the
  text of an expression into its syntax tree (here, its printed form) or reports an error.
\<close>
type_synonym ExpressionService = "string \<Rightarrow> string + string"













text \<open>
  Modelled from the spec: a block of the HTML syntax tree (not among the sources) as far as the
  control-flow parser reads it: its name and the texts of its parameters.
\<close>
datatype Block = Block string "string list"









text \<open>
  Whether a block of a switch body is its default.
\<close>
fun isDefaultBlock :: "Block \<Rightarrow> bool" where
  "isDefaultBlock (Block nm ps) = (nm = ''default'')"

text \<open>
  Modelled from the spec: the check of a switch body (\<^verbatim>\<open>validateSwitchBlock\<close> is not among the
  sources): only \<^verbatim>\<open>case\<close> blocks with one parameter and at most one \<^verbatim>\<open>default\<close> block without
  parameters.
\<close>
fun validateSwitchCases :: "Block list \<Rightarrow> bool \<Rightarrow> string list" where
  \<open>validateSwitchCases [] hasDefault = []\<close>
| \<open>validateSwitchCases (Block nm ps # blocks) hasDefault =
     (if nm = ''case'' then
        (if length ps \<noteq> 1 then [''Case block must have exactly one parameter''] else [])
          @ validateSwitchCases blocks hasDefault
      else if nm = ''default'' then
        (if hasDefault then [''Switch block can only have one "default" block'']
         else if ps \<noteq> [] then [''Default block cannot have parameters'']
         else [])
          @ validateSwitchCases blocks True
      else [''Switch block can only contain "case" and "default" blocks'']
          @ validateSwitchCases blocks hasDefault)\<close>

text \<open>
  Modelled from the spec: a switch block has exactly one parameter and a valid body.
\<close>
definition validateSwitchBlock :: "string list \<Rightarrow> Block list \<Rightarrow> string list" where
  \<open>validateSwitchBlock params blocks =
     (if length params \<noteq> 1 then [''Switch block must have exactly one parameter''] else [])
       @ validateSwitchCases blocks False\<close>

text \<open>
  Modelled from the spec: the switch node: its expression, the expressions of its cases in
  order, and whether one case has no expression, which denotes the default.
\<close>
datatype SwitchBlock = SwitchBlock string "string list" bool

text \<open>
  The errors the binding parser reports for a list of expressions, and the tree it gives for one.
\<close>
definition serviceErrors :: "ExpressionService \<Rightarrow> string list \<Rightarrow> string list" where
  "serviceErrors svc es = concat (map (\<lambda>e. case svc e of Inl msg \<Rightarrow> [msg] | Inr ast \<Rightarrow> []) es)"

definition serviceAst :: "ExpressionService \<Rightarrow> string \<Rightarrow> string" where
  "serviceAst svc e = (case svc e of Inl msg \<Rightarrow> e | Inr ast \<Rightarrow> ast)"

text \<open>
  Modelled from the spec: \<^verbatim>\<open>createSwitchBlock\<close>, which is not among the sources. A block that
  fails validation yields no node.
\<close>
definition createSwitchBlock ::
  "ExpressionService \<Rightarrow> string list \<Rightarrow> Block list \<Rightarrow> SwitchBlock option \<times> string list" where
  \<open>createSwitchBlock svc params blocks =
     (let errs = validateSwitchBlock params blocks
      in if errs \<noteq> [] then (None, errs)
         else
           (let caseExpressions =
                  concat (map (\<lambda>b. case b of Block nm ps \<Rightarrow> if nm = ''case'' then [hd ps] else []) blocks);
                hasDefault = list_ex isDefaultBlock blocks
            in (Some (SwitchBlock (serviceAst svc (hd params)) (map (serviceAst svc) caseExpressions)
                        hasDefault),
                serviceErrors svc (hd params # caseExpressions))))\<close>


text \<open>
  A case block with one parameter or a default block with none.
\<close>
fun wellFormedCase :: "Block \<Rightarrow> bool" where
  "wellFormedCase (Block nm ps) = (nm = ''case'' \<and> length ps = 1 \<or> nm = ''default'' \<and> ps = [])"

text \<open>
  The expressions of the case blocks of a body, in order.
\<close>
fun switchExpressions :: "Block list \<Rightarrow> string list" where
  "switchExpressions [] = []"
| "switchExpressions (Block nm ps # blocks) =
     (if nm = ''case'' then [hd ps] else []) @ switchExpressions blocks"

text \<open>
  The binding parser accepts an expression.
\<close>
fun accepts :: "ExpressionService \<Rightarrow> string \<Rightarrow> bool" where
  "accepts svc e = (case svc e of Inl msg \<Rightarrow> False | Inr ast \<Rightarrow> True)"


subsection \<open>Notions for stating the properties of the trigger sets\<close>







section \<open>Notions for stating the properties of the naming phase\<close>

text \<open>
  The variables that the \<open>Variable\<close> operations of a unit and of its nested views
  refer to, in the order in which the phase reaches them.
\<close>

fun unitVarRefs :: "CompilationUnit \<Rightarrow> VarRef list"
and opsVarRefs :: "Op list \<Rightarrow> VarRef list"
where
  "unitVarRefs (CompilationUnit fnm ops) = opsVarRefs ops"
| "opsVarRefs [] = []"
| "opsVarRefs (Op (Variable xref v) es # rest) = v # opsVarRefs rest"
| "opsVarRefs (Op (Template xref tag ns slot (Some childView)) es # rest) =
     unitVarRefs childView @ opsVarRefs rest"
| "opsVarRefs (op # rest) = opsVarRefs rest"

text \<open>
  The variable that a unit's own operations declare for an xref: the one of the last
  \<open>Variable\<close> operation with that xref, since \<open>varNames.set\<close> overwrites.
\<close>

fun declared :: "Op list \<Rightarrow> XrefId \<Rightarrow> VarRef option" where
  "declared [] x = None"
| "declared (Op k es # rest) x =
     (case declared rest x of
        Some v \<Rightarrow> Some v
      | None \<Rightarrow> (case k of Variable xref v \<Rightarrow> if xref = x then Some v else None | _ \<Rightarrow> None))"

text \<open>The xrefs of the reads of a list of operations whose name is still unset.\<close>

fun unsetRead :: "Expr \<Rightarrow> XrefId list" where
  "unsetRead (ReadVariableExpr x None) = [x]"
| "unsetRead e = []"

definition unsetReads :: "Op list \<Rightarrow> XrefId list" where
  "unsetReads ops = concat (map (\<lambda>op. concat (map unsetRead (opExprs op))) ops)"

text \<open>An expression with an unset read filled in from a table of names.\<close>

fun fillRead :: "(XrefId \<rightharpoonup> string) \<Rightarrow> Expr \<Rightarrow> Expr" where
  "fillRead names (ReadVariableExpr x None) = ReadVariableExpr x (names x)"
| "fillRead names e = e"

text \<open>
  One state grows into another when the counter does not decrease and every variable
  is either untouched or was unnamed and now carries the fresh name of a counter value
  between the two counters, with different variables carrying different new names.
\<close>

definition grows :: "NamingState \<Rightarrow> NamingState \<Rightarrow> bool" where
  "grows st st' \<longleftrightarrow>
     index st \<le> index st' \<and>
     (\<forall>v. variables st' v = variables st v \<or>
          (name (variables st v) = None \<and>
           (\<exists>n. index st \<le> n \<and> n < index st' \<and>
                variables st' v =
                  (variables st v)\<lparr>name := Some (freshName (kind (variables st v)) n)\<rparr>))) \<and>
     (\<forall>v w. v \<noteq> w \<and> variables st' v \<noteq> variables st v \<and> variables st' w \<noteq> variables st w
          \<longrightarrow> name (variables st' v) \<noteq> name (variables st' w))"

text \<open>
  A job is populated when every unit has a function name, every listener a handler
  name and every declared variable a name.
\<close>

fun namesPopulated :: "(VarRef \<Rightarrow> SemanticVariable) \<Rightarrow> CompilationUnit \<Rightarrow> bool"
and opsPopulated :: "(VarRef \<Rightarrow> SemanticVariable) \<Rightarrow> Op list \<Rightarrow> bool"
where
  "namesPopulated heap (CompilationUnit fnm ops) = (fnm \<noteq> None \<and> opsPopulated heap ops)"
| "opsPopulated heap [] = True"
| "opsPopulated heap (Op (Listener nm handler slot tag isAnim phase) es # rest) =
     (handler \<noteq> None \<and> opsPopulated heap rest)"
| "opsPopulated heap (Op (Variable xref v) es # rest) =
     (name (heap v) \<noteq> None \<and> opsPopulated heap rest)"
| "opsPopulated heap (Op (Template xref tag ns slot (Some childView)) es # rest) =
     (namesPopulated heap childView \<and> opsPopulated heap rest)"
| "opsPopulated heap (op # rest) = opsPopulated heap rest"

text \<open>
  What a pass over a populated job does to the names of its operations, stated apart from
  the code: the name of an animation trigger gets another \<open>@\<close> in front; the name of a
  style property is hyphenated unless it starts with \<open>--\<close>; in compatibility mode
  (\<open>tdb\<close>) the name of a style or class property is cut at the first \<open>!important\<close>;
  every other name, and every name of a unit, a listener or a variable, stays.
\<close>

definition cutImportant :: "bool \<Rightarrow> string \<Rightarrow> string" where
  "cutImportant tdb nm =
     (if tdb then (case indexOf nm ''!important'' of Some i \<Rightarrow> take i nm | None \<Rightarrow> nm) else nm)"

fun rerunKind :: "Helpers \<Rightarrow> bool \<Rightarrow> OpKind \<Rightarrow> OpKind" where
  "rerunKind H tdb (Property nm anim) = Property (if anim then ''@'' @ nm else nm) anim"
| "rerunKind H tdb (HostProperty nm anim) = HostProperty (if anim then ''@'' @ nm else nm) anim"
| "rerunKind H tdb (StyleProp nm) =
     StyleProp (cutImportant tdb (if startsWith nm ''--'' then nm else hyphenate H nm))"
| "rerunKind H tdb (ClassProp nm) = ClassProp (cutImportant tdb nm)"
| "rerunKind H tdb k = k"

fun rerunUnit :: "Helpers \<Rightarrow> bool \<Rightarrow> CompilationUnit \<Rightarrow> CompilationUnit"
and rerunOps :: "Helpers \<Rightarrow> bool \<Rightarrow> Op list \<Rightarrow> Op list"
where
  "rerunUnit H tdb (CompilationUnit fnm ops) = CompilationUnit fnm (rerunOps H tdb ops)"
| "rerunOps H tdb [] = []"
| "rerunOps H tdb (Op (Template xref tag ns slot (Some childView)) es # rest) =
     Op (Template xref tag ns slot (Some (rerunUnit H tdb childView))) es # rerunOps H tdb rest"
| "rerunOps H tdb (Op k es # rest) = Op (rerunKind H tdb k) es # rerunOps H tdb rest"

text \<open>
  A unit without the names that the comparison of a populated job before and after a
  pass leaves aside: the names of reads, which the second loop fills in, and the handler
  name of a listener of a host-binding unit in compatibility mode (\<open>legacy\<close>), which that
  branch assigns without looking at it.
\<close>

fun stableExpr :: "Expr \<Rightarrow> Expr" where
  "stableExpr (ReadVariableExpr x n) = ReadVariableExpr x None"
| "stableExpr e = e"

fun stableKind :: "bool \<Rightarrow> OpKind \<Rightarrow> OpKind" where
  "stableKind legacy (Listener nm handler slot tag isAnim phase) =
     Listener nm (if legacy then None else handler) slot tag isAnim phase"
| "stableKind legacy k = k"

fun stableUnit :: "bool \<Rightarrow> CompilationUnit \<Rightarrow> CompilationUnit"
and stableOps :: "bool \<Rightarrow> Op list \<Rightarrow> Op list"
where
  "stableUnit legacy (CompilationUnit fnm ops) = CompilationUnit fnm (stableOps legacy ops)"
| "stableOps legacy [] = []"
| "stableOps legacy (Op (Template xref tag ns slot (Some childView)) es # rest) =
     Op (Template xref tag ns slot (Some (stableUnit False childView))) (map stableExpr es)
       # stableOps legacy rest"
| "stableOps legacy (Op k es # rest) =
     Op (stableKind legacy k) (map stableExpr es) # stableOps legacy rest"

text \<open>
  For the examples: a component whose root view declares a context variable and holds
  a template whose view declares another one.
\<close>

definition twoViews :: CompilationJob where
  "twoViews =
     \<lparr>componentName = ''Cmp'', fnSuffix = ''Template'', compatibility = Normal,
      rootKind = ViewCompilationUnit,
      root = CompilationUnit None
        [Op (Variable 1 10) [],
         Op (Template 2 ''div'' HTML (Some 0)
               (Some (CompilationUnit None [Op (Variable 3 11) []]))) []]\<rparr>"

text \<open>
  For the examples: a unit that declares a variable and reads it, a unit that reads a
  variable it never declares, and a component with an animation trigger, a listener and
  a variable, before and after one naming pass.
\<close>

definition readUnit :: CompilationUnit where
  "readUnit = CompilationUnit None
     [Op (Variable 1 10) [], Op OtherOp [ReadVariableExpr 1 None, OtherExpr]]"

definition danglingRead :: CompilationUnit where
  "danglingRead = CompilationUnit None [Op OtherOp [ReadVariableExpr 7 None]]"

definition animationJob :: CompilationJob where
  "animationJob =
     \<lparr>componentName = ''Cmp'', fnSuffix = ''Template'', compatibility = Normal,
      rootKind = ViewCompilationUnit,
      root = CompilationUnit None
        [Op (Property ''open'' True) [],
         Op (Listener ''click'' None (Some 1) (Some ''button'') False None) [],
         Op (Variable 2 10) []]\<rparr>"

definition namedAnimationUnit :: CompilationUnit where
  "namedAnimationUnit = CompilationUnit (Some ''Cmp_Template'')
     [Op (Property ''@open'' True) [],
      Op (Listener ''click'' (Some ''Cmp_Template_button_click_1_listener'')
            (Some 1) (Some ''button'') False None) [],
      Op (Variable 2 10) []]"

definition namedHeap :: "VarRef \<Rightarrow> SemanticVariable" where
  "namedHeap = (variables freshState)(10 := \<lparr>kind = Context, name = Some ''ctx_r0''\<rparr>)"

text \<open>
  For the examples: a component in compatibility mode in which every name is set and the
  names of a style and of a class property carry \<open>!important\<close>.
\<close>

definition importantJob :: CompilationJob where
  "importantJob =
     \<lparr>componentName = ''Cmp'', fnSuffix = ''Template'', compatibility = TemplateDefinitionBuilder,
      rootKind = ViewCompilationUnit,
      root = CompilationUnit (Some ''Cmp_Template'')
        [Op (StyleProp ''width!important'') [],
         Op (ClassProp ''big!important'') [],
         Op (Listener ''click'' (Some ''Cmp_Template_button_click_1_listener'')
               (Some 1) (Some ''button'') False None) []]\<rparr>"

section \<open>Properties of the naming phase\<close>

subsection \<open>The loops, operation by operation\<close>

lemma addNamesToOps_plain:
  "\<not> isTemplate k \<Longrightarrow>
   addNamesToOps H sfx jc uk fn b tdb (Op k es # rest) vn st =
     (case nameOp H jc uk fn b tdb k vn st of
        Inl err \<Rightarrow> Inl err
      | Inr (k', vn', st') \<Rightarrow>
          (case addNamesToOps H sfx jc uk fn b tdb rest vn' st' of
             Inl err \<Rightarrow> Inl err
           | Inr (rest', vn'', st'') \<Rightarrow> Inr (Op k' es # rest', vn'', st'')))"
  by (cases k) (simp_all add: isTemplate_def del: nameOp.simps)

lemma isTemplateE: "isTemplate k \<Longrightarrow> \<exists>xref tag ns slot child. k = Template xref tag ns slot child"
  by (cases k) (simp_all add: isTemplate_def)

lemma addNamesToOps_length:
  "addNamesToOps H sfx jc uk fn b tdb ops vn st = Inr (ops', vn', st') \<Longrightarrow> length ops' = length ops"
proof (induction ops arbitrary: vn st ops' vn' st')
  case Nil
  then show ?case by simp
next
  case (Cons op rest)
  obtain k es where op: "op = Op k es" by (cases op)
  show ?case
  proof (cases "isTemplate k")
    case True
    then obtain xref tag ns slot child where k: "k = Template xref tag ns slot child"
      using isTemplateE by blast
    show ?thesis
      using Cons.prems Cons.IH unfolding op k
      by (auto split: if_splits option.splits sum.splits prod.splits)
  next
    case False
    show ?thesis
      using Cons.prems Cons.IH unfolding op addNamesToOps_plain[OF False]
      by (auto split: sum.splits prod.splits)
  qed
qed

lemma addNamesToOps_nth:
  "addNamesToOps H sfx jc uk fn b tdb ops vn st = Inr (ops', vn', st') \<Longrightarrow>
   i < length ops \<Longrightarrow> \<not> isTemplate (opKind (ops ! i)) \<Longrightarrow>
   \<exists>vn1 st1 vn2 st2. nameOp H jc uk fn b tdb (opKind (ops ! i)) vn1 st1 = Inr (opKind (ops' ! i), vn2, st2)
      \<and> opExprs (ops' ! i) = opExprs (ops ! i)"
proof (induction ops arbitrary: vn st ops' vn' st' i)
  case Nil
  then show ?case by simp
next
  case (Cons op rest)
  obtain k es where op: "op = Op k es" by (cases op)
  show ?case
  proof (cases i)
    case 0
    with Cons.prems have nt: "\<not> isTemplate k" by (simp add: op)
    show ?thesis
      using Cons.prems(1) 0 unfolding op addNamesToOps_plain[OF nt]
      by (auto split: sum.splits prod.splits) blast
  next
    case (Suc j)
    show ?thesis
    proof (cases "isTemplate k")
      case True
      then obtain xref tag ns slot child where k: "k = Template xref tag ns slot child"
        using isTemplateE by blast
      show ?thesis
        using Cons.prems Suc Cons.IH[of _ _ _ _ _ j] unfolding op k
        by (auto split: if_splits option.splits sum.splits prod.splits)
    next
      case False
      show ?thesis
        using Cons.prems Suc Cons.IH[of _ _ _ _ _ j] unfolding op addNamesToOps_plain[OF False]
        by (auto split: sum.splits prod.splits)
    qed
  qed
qed

lemma addNamesToOps_error:
  "i < length ops \<Longrightarrow> \<not> isTemplate (opKind (ops ! i)) \<Longrightarrow>
   (\<And>vn1 st1. \<exists>e. nameOp H jc uk fn b tdb (opKind (ops ! i)) vn1 st1 = Inl e) \<Longrightarrow>
   \<exists>e. addNamesToOps H sfx jc uk fn b tdb ops vn st = Inl e"
proof (induction ops arbitrary: vn st i)
  case Nil
  then show ?case by simp
next
  case (Cons op rest)
  obtain k es where op: "op = Op k es" by (cases op)
  show ?case
  proof (cases i)
    case 0
    with Cons.prems have nt: "\<not> isTemplate k" by (simp add: op)
    show ?thesis
      using 0 Cons.prems(3)[of vn st] unfolding op addNamesToOps_plain[OF nt]
      by auto
  next
    case (Suc j)
    have r: "\<And>vn st. \<exists>e. addNamesToOps H sfx jc uk fn b tdb rest vn st = Inl e"
      using Cons.IH[of j] Cons.prems Suc by auto
    show ?thesis
    proof (cases "isTemplate k")
      case True
      then obtain xref tag ns slot child where k: "k = Template xref tag ns slot child"
        using isTemplateE by blast
      have "\<And>e. addNamesToOps H sfx jc uk fn b tdb (op # rest) vn st \<noteq> Inr e"
        using r unfolding op k
        by (auto split: if_splits option.splits sum.splits prod.splits) (metis Inl_Inr_False)
      then show ?thesis by (metis sum.exhaust)
    next
      case False
      have "\<And>e. addNamesToOps H sfx jc uk fn b tdb (op # rest) vn st \<noteq> Inr e"
        using r unfolding op addNamesToOps_plain[OF False]
        by (auto split: sum.splits prod.splits) (metis Inl_Inr_False)
      then show ?thesis by (metis sum.exhaust)
    qed
  qed
qed

lemma resolveExprs_length: "resolveExprs vn es = Inr es' \<Longrightarrow> length es' = length es"
  by (induction es arbitrary: es') (auto split: sum.splits)

lemma resolveOps_length: "resolveOps vn ops = Inr ops' \<Longrightarrow> length ops' = length ops"
proof (induction ops arbitrary: ops')
  case Nil
  then show ?case by simp
next
  case (Cons op rest)
  then show ?case by (cases op) (auto split: sum.splits)
qed

lemma resolveOps_kind:
  "resolveOps vn ops = Inr ops' \<Longrightarrow> i < length ops \<Longrightarrow> opKind (ops' ! i) = opKind (ops ! i)"
proof (induction ops arbitrary: ops' i)
  case Nil
  then show ?case by simp
next
  case (Cons op rest)
  then show ?case by (cases op; cases i) (auto split: sum.splits)
qed

lemma addNamesToView_nth:
  assumes "addNamesToView H sfx jc uk u b st tdb = Inr (u', st')"
    and "i < length (unitOps u)" and "\<not> isTemplate (opKind (unitOps u ! i))"
  shows "\<exists>fn vn1 st1 vn2 st2. fnName u' = Some fn
      \<and> fn = (case fnName u of None \<Rightarrow> sanitizeIdentifier H (b @ ''_'' @ sfx) | Some f \<Rightarrow> f)
      \<and> nameOp H jc uk fn b tdb (opKind (unitOps u ! i)) vn1 st1 = Inr (opKind (unitOps u' ! i), vn2, st2)"
proof -
  obtain fnm ops where u: "u = CompilationUnit fnm ops" by (cases u)
  define fn where "fn = (case fnm of None \<Rightarrow> sanitizeIdentifier H (b @ ''_'' @ sfx) | Some f \<Rightarrow> f)"
  from assms(1) obtain ops1 vn1 ops2 where
    a: "addNamesToOps H sfx jc uk fn b tdb ops Map.empty st = Inr (ops1, vn1, st')"
    and r: "resolveOps vn1 ops1 = Inr ops2" and u': "u' = CompilationUnit (Some fn) ops2"
    unfolding u fn_def by (auto simp: Let_def split: sum.splits prod.splits)
  have len: "length ops1 = length ops" using a by (rule addNamesToOps_length)
  from addNamesToOps_nth[OF a] assms(2,3) obtain va sa vb sb where
    n: "nameOp H jc uk fn b tdb (opKind (ops ! i)) va sa = Inr (opKind (ops1 ! i), vb, sb)"
    unfolding u by fastforce
  have "opKind (ops2 ! i) = opKind (ops1 ! i)"
    using resolveOps_kind[OF r] assms(2) len unfolding u by simp
  then show ?thesis using n unfolding u u' fn_def by auto
qed

lemma addNamesToView_error:
  assumes "i < length (unitOps u)" and "\<not> isTemplate (opKind (unitOps u ! i))"
    and "\<And>fn vn1 st1. \<exists>e. nameOp H jc uk fn b tdb (opKind (unitOps u ! i)) vn1 st1 = Inl e"
  shows "\<exists>e. addNamesToView H sfx jc uk u b st tdb = Inl e"
proof -
  obtain fnm ops where u: "u = CompilationUnit fnm ops" by (cases u)
  define fn where "fn = (case fnm of None \<Rightarrow> sanitizeIdentifier H (b @ ''_'' @ sfx) | Some f \<Rightarrow> f)"
  have "\<exists>e. addNamesToOps H sfx jc uk fn b tdb ops Map.empty st = Inl e"
    using addNamesToOps_error[of i ops H jc uk fn b tdb] assms unfolding u by simp
  then show ?thesis unfolding u fn_def[symmetric] by (auto simp: Let_def fn_def)
qed

subsection \<open>Stripping the important marker\<close>

lemma important_nth: "0 < m \<Longrightarrow> m < 10 \<Longrightarrow> ''!important'' ! m \<noteq> CHR ''!''"
proof -
  assume "0 < m" "m < 10"
  then have "m \<in> {1,2,3,4,5,6,7,8,9}" by auto
  then show ?thesis by auto
qed

lemma startsWith_important:
  "startsWith s ''!important'' = (take 10 s = ''!important'')"
proof -
  have "length ''!important'' = 10" by simp
  then show ?thesis unfolding startsWith_def by (simp only:)
qed

lemma straddle:
  assumes "\<not> startsWith pre ''!important''"
  shows "pre \<noteq> [] \<Longrightarrow> \<not> startsWith (pre @ ''!important'' @ rest) ''!important''"
proof
  assume ne: "pre \<noteq> []" and sw: "startsWith (pre @ ''!important'' @ rest) ''!important''"
  let ?m = "length pre"
  have eq: "take 10 (pre @ ''!important'' @ rest) = ''!important''"
    using sw unfolding startsWith_important .
  show False
  proof (cases "?m < 10")
    case True
    have "(take 10 (pre @ ''!important'' @ rest)) ! ?m = (pre @ ''!important'' @ rest) ! ?m"
      using True by (intro nth_take)
    also have "\<dots> = CHR ''!''" by (simp add: nth_append)
    finally have "''!important'' ! ?m = CHR ''!''" unfolding eq .
    then show False using important_nth[of ?m] True ne by simp
  next
    case False
    then have "take 10 (pre @ ''!important'' @ rest) = take 10 pre" by simp
    then show False using eq assms unfolding startsWith_important by simp
  qed
qed

lemma indexOfFrom_append:
  "indexOfFrom i pre ''!important'' = None \<Longrightarrow>
   indexOfFrom i (pre @ ''!important'' @ rest) ''!important'' = Some (i + length pre)"
proof (induction pre arbitrary: i)
  case Nil
  then show ?case by (simp add: startsWith_important)
next
  case (Cons c cs)
  from Cons.prems have ns: "\<not> startsWith (c # cs) ''!important''"
    and r: "indexOfFrom (Suc i) cs ''!important'' = None"
    by (auto split: if_splits)
  have "\<not> startsWith ((c # cs) @ ''!important'' @ rest) ''!important''"
    using straddle[OF ns] by simp
  then show ?case using Cons.IH[OF r] by simp
qed

lemma stripImportant_suffix:
  "indexOf pre ''!important'' = None \<Longrightarrow> stripImportant (pre @ ''!important'' @ rest) = pre"
  using indexOfFrom_append[of 0 pre rest] by (simp add: stripImportant_def indexOf_def)

lemma stripImportant_none:
  "indexOf nm ''!important'' = None \<Longrightarrow> stripImportant nm = nm"
  by (simp add: stripImportant_def)

subsection \<open>Induction over the views of a job\<close>

lemma naming_induct [case_names View Nil Template Plain]:
  fixes P :: "Helpers \<Rightarrow> string \<Rightarrow> CompatibilityMode \<Rightarrow> UnitKind \<Rightarrow> CompilationUnit \<Rightarrow> string \<Rightarrow>
              NamingState \<Rightarrow> bool \<Rightarrow> bool"
    and Q :: "Helpers \<Rightarrow> string \<Rightarrow> CompatibilityMode \<Rightarrow> UnitKind \<Rightarrow> string \<Rightarrow> string \<Rightarrow> bool \<Rightarrow>
              Op list \<Rightarrow> (XrefId \<rightharpoonup> string) \<Rightarrow> NamingState \<Rightarrow> bool"
  assumes View: "\<And>H sfx jc uk fnm ops b st tdb.
      Q H sfx jc uk (case fnm of None \<Rightarrow> sanitizeIdentifier H (b @ ''_'' @ sfx) | Some f \<Rightarrow> f)
        b tdb ops Map.empty st
      \<Longrightarrow> P H sfx jc uk (CompilationUnit fnm ops) b st tdb"
    and Nil: "\<And>H sfx jc uk fn b tdb vn st. Q H sfx jc uk fn b tdb [] vn st"
    and Template: "\<And>H sfx jc uk fn b tdb xref tag ns slot child es rest vn st.
      (\<And>s cv. uk = ViewCompilationUnit \<Longrightarrow> slot = Some s \<Longrightarrow> child = Some cv \<Longrightarrow>
          P H sfx jc ViewCompilationUnit cv
            (b @ ''_'' @ prefixWithNamespace H tag ns @ ''_'' @ string_of_nat s) st tdb) \<Longrightarrow>
      (\<And>s cv cv' st'. uk = ViewCompilationUnit \<Longrightarrow> slot = Some s \<Longrightarrow> child = Some cv \<Longrightarrow>
          addNamesToView H sfx jc ViewCompilationUnit cv
            (b @ ''_'' @ prefixWithNamespace H tag ns @ ''_'' @ string_of_nat s) st tdb = Inr (cv', st') \<Longrightarrow>
          Q H sfx jc uk fn b tdb rest vn st') \<Longrightarrow>
      Q H sfx jc uk fn b tdb (Op (Template xref tag ns slot child) es # rest) vn st"
    and Plain: "\<And>H sfx jc uk fn b tdb k es rest vn st. \<not> isTemplate k \<Longrightarrow>
      (\<And>k' vn' st'. nameOp H jc uk fn b tdb k vn st = Inr (k', vn', st') \<Longrightarrow>
          Q H sfx jc uk fn b tdb rest vn' st') \<Longrightarrow>
      Q H sfx jc uk fn b tdb (Op k es # rest) vn st"
  shows "P H sfx jc uk u b st tdb" and "Q H' sfx' jc' uk' fn b' tdb' ops vn st'"
proof (induct H sfx jc uk u b st tdb and H' sfx' jc' uk' fn b' tdb' ops vn st'
      rule: addNamesToView_addNamesToOps.induct)
  case (1 H sfx jc uk fnm ops baseName st tdb)
  then show ?case using View by (auto simp: Let_def)
next
  case (2 H sfx jc uk fn baseName tdb vn st)
  then show ?case using Nil by simp
next
  case (3 H sfx jc uk fn baseName tdb xref tag ns slot child es rest vn st)
  show ?case
  proof (rule Template)
    fix s cv
    assume "uk = ViewCompilationUnit" "slot = Some s" "child = Some cv"
    then show "P H sfx jc ViewCompilationUnit cv
        (baseName @ ''_'' @ prefixWithNamespace H tag ns @ ''_'' @ string_of_nat s) st tdb"
      using 3(1)[of s cv] by simp
  next
    fix s cv cv' st'
    assume "uk = ViewCompilationUnit" "slot = Some s" "child = Some cv"
      "addNamesToView H sfx jc ViewCompilationUnit cv
        (baseName @ ''_'' @ prefixWithNamespace H tag ns @ ''_'' @ string_of_nat s) st tdb
       = Inr (cv', st')"
    then show "Q H sfx jc uk fn baseName tdb rest vn st'"
      using 3(2)[of s cv "(cv', st')" cv' st'] by simp
  qed
qed (auto intro!: Plain simp: isTemplate_def simp del: nameOp.simps)

lemma addNamesToOps_TemplateE:
  assumes "addNamesToOps H sfx jc uk fn b tdb (Op (Template xref tag ns slot child) es # rest) vn st
           = Inr (ops', vn', st'')"
  obtains s cv cv' st' rest' where "uk = ViewCompilationUnit" "slot = Some s" "child = Some cv"
    "addNamesToView H sfx jc ViewCompilationUnit cv
       (b @ ''_'' @ prefixWithNamespace H tag ns @ ''_'' @ string_of_nat s) st tdb = Inr (cv', st')"
    "addNamesToOps H sfx jc uk fn b tdb rest vn st' = Inr (rest', vn', st'')"
    "ops' = Op (Template xref tag ns slot (Some cv')) es # rest'"
  using assms by (auto split: if_splits option.splits sum.splits prod.splits)

lemma addNamesToOps_plainE:
  assumes "\<not> isTemplate k"
    and "addNamesToOps H sfx jc uk fn b tdb (Op k es # rest) vn st = Inr (ops', vn'', st'')"
  obtains k' vn' st' rest' where "nameOp H jc uk fn b tdb k vn st = Inr (k', vn', st')"
    "addNamesToOps H sfx jc uk fn b tdb rest vn' st' = Inr (rest', vn'', st'')"
    "ops' = Op k' es # rest'"
  using assms(2) unfolding addNamesToOps_plain[OF assms(1)]
  by (auto split: sum.splits prod.splits)

lemma addNamesToViewE:
  assumes "addNamesToView H sfx jc uk (CompilationUnit fnm ops) b st tdb = Inr (u', st')"
  obtains ops1 vn ops2 where
    "addNamesToOps H sfx jc uk
       (case fnm of None \<Rightarrow> sanitizeIdentifier H (b @ ''_'' @ sfx) | Some f \<Rightarrow> f)
       b tdb ops Map.empty st = Inr (ops1, vn, st')"
    "resolveOps vn ops1 = Inr ops2"
    "u' = CompilationUnit
       (Some (case fnm of None \<Rightarrow> sanitizeIdentifier H (b @ ''_'' @ sfx) | Some f \<Rightarrow> f)) ops2"
  using assms by (auto simp: Let_def split: sum.splits prod.splits)

subsection \<open>Decimal numerals and fresh names\<close>

lemma digit_cases: "d < 10 \<Longrightarrow> d \<in> {0,1,2,3,4,5,6,7,8,9::nat}"
  by auto

lemma digit_char_is_digit: "d < 10 \<Longrightarrow> is_digit (digit_char d)"
  using digit_cases[of d] by (auto simp: is_digit_def digit_char_def)

lemma digit_val_digit_char: "d < 10 \<Longrightarrow> digit_val (digit_char d) = d"
  using digit_cases[of d] by (auto simp: digit_val_def digit_char_def)

lemma string_of_nat_digits: "\<forall>c \<in> set (string_of_nat n). is_digit c"
proof (induction n rule: string_of_nat.induct)
  case (1 n)
  show ?case
  proof (cases "n < 10")
    case True
    then show ?thesis by (subst string_of_nat.simps) (simp add: digit_char_is_digit)
  next
    case False
    then show ?thesis using 1 by (subst string_of_nat.simps) (simp add: digit_char_is_digit)
  qed
qed

lemma nat_of_string_snoc: "nat_of_string (s @ [c]) = 10 * nat_of_string s + digit_val c"
  by (simp add: nat_of_string_def)

lemma nat_of_string_of_nat: "nat_of_string (string_of_nat n) = n"
proof (induction n rule: string_of_nat.induct)
  case (1 n)
  show ?case
  proof (cases "n < 10")
    case True
    then show ?thesis
      by (subst string_of_nat.simps) (simp add: nat_of_string_def digit_val_digit_char)
  next
    case False
    then show ?thesis using 1
      by (subst string_of_nat.simps) (simp add: nat_of_string_snoc digit_val_digit_char)
  qed
qed

lemma string_of_nat_inj: "string_of_nat m = string_of_nat n \<Longrightarrow> m = n"
  by (metis nat_of_string_of_nat)


lemma digits_suffix:
  "\<forall>c \<in> set d. is_digit c \<Longrightarrow> \<not> is_digit x \<Longrightarrow> takeWhile is_digit (rev (p @ x # d)) = rev d"
proof -
  assume d: "\<forall>c \<in> set d. is_digit c" and x: "\<not> is_digit x"
  have "takeWhile is_digit (rev d @ x # rev p) = rev d @ takeWhile is_digit (x # rev p)"
    by (rule takeWhile_append2) (use d in auto)
  then show ?thesis using x by simp
qed

lemma nd: "\<not> is_digit (CHR ''r'')" "\<not> is_digit (CHR ''_'')"
  by (simp_all add: is_digit_def)


lemma freshName_digits:
  "takeWhile is_digit (rev (freshName k n)) = rev (string_of_nat n)"
proof (cases k)
  case Context
  have "freshName k n = ''ctx_'' @ CHR ''r'' # string_of_nat n"
    by (simp add: freshName_def Context)
  then show ?thesis using digits_suffix[OF string_of_nat_digits nd(1)] by metis
next
  case (Identifier ident)
  have "freshName k n = ident @ CHR ''_'' # string_of_nat n"
    by (simp add: freshName_def Identifier)
  then show ?thesis using digits_suffix[OF string_of_nat_digits nd(2)] by metis
next
  case SavedView
  have "freshName k n = ''_'' @ CHR ''r'' # string_of_nat n"
    by (simp add: freshName_def SavedView)
  then show ?thesis using digits_suffix[OF string_of_nat_digits nd(1)] by metis
qed

lemma freshName_inj: "freshName k n = freshName k' n' \<Longrightarrow> n = n'"
proof -
  assume "freshName k n = freshName k' n'"
  then have "rev (string_of_nat n) = rev (string_of_nat n')"
    using freshName_digits[of k n] freshName_digits[of k' n'] by simp
  then show ?thesis using string_of_nat_inj by simp
qed

subsection \<open>How the state grows\<close>

lemma grows_refl: "grows st st"
  by (simp add: grows_def)

lemma grows_changed:
  assumes "grows st st'" and "variables st' v \<noteq> variables st v"
  shows "name (variables st v) = None \<and>
         (\<exists>n. index st \<le> n \<and> n < index st' \<and>
              variables st' v = (variables st v)\<lparr>name := Some (freshName (kind (variables st v)) n)\<rparr>)"
  using assms unfolding grows_def by blast

lemma grows_keep:
  assumes "grows st st'" and "name (variables st v) = Some x"
  shows "variables st' v = variables st v"
  using assms unfolding grows_def by (metis option.distinct(1))

lemma grows_index: "grows st st' \<Longrightarrow> index st \<le> index st'"
  by (simp add: grows_def)

lemma grows_distinct:
  "grows st st' \<Longrightarrow> v \<noteq> w \<Longrightarrow> variables st' v \<noteq> variables st v \<Longrightarrow>
   variables st' w \<noteq> variables st w \<Longrightarrow> name (variables st' v) \<noteq> name (variables st' w)"
  unfolding grows_def by blast

lemma grows_trans:
  assumes ab: "grows a b" and bc: "grows b c"
  shows "grows a c"
  unfolding grows_def
proof (intro conjI allI impI)
  show "index a \<le> index c" using grows_index[OF ab] grows_index[OF bc] by simp
next
  fix v
  show "variables c v = variables a v \<or>
        (name (variables a v) = None \<and>
         (\<exists>n. index a \<le> n \<and> n < index c \<and>
              variables c v = (variables a v)\<lparr>name := Some (freshName (kind (variables a v)) n)\<rparr>))"
  proof (cases "variables b v = variables a v")
    case True
    show ?thesis
    proof (cases "variables c v = variables b v")
      case True
      then show ?thesis using \<open>variables b v = variables a v\<close> by simp
    next
      case False
      from grows_changed[OF bc False] grows_index[OF ab] True show ?thesis
        by (metis le_trans)
    qed
  next
    case False
    from grows_changed[OF ab False] obtain n where
      n: "name (variables a v) = None" "index a \<le> n" "n < index b"
        "variables b v = (variables a v)\<lparr>name := Some (freshName (kind (variables a v)) n)\<rparr>"
      by blast
    then have "name (variables b v) = Some (freshName (kind (variables a v)) n)" by simp
    then have "variables c v = variables b v" using grows_keep[OF bc] by blast
    then show ?thesis using n grows_index[OF bc] by (metis less_le_trans)
  qed
next
  fix v w
  assume h: "v \<noteq> w \<and> variables c v \<noteq> variables a v \<and> variables c w \<noteq> variables a w"
  have early: "\<And>u. variables b u \<noteq> variables a u \<Longrightarrow>
      variables c u = variables b u \<and> (\<exists>n. n < index b \<and> name (variables c u) = Some (freshName (kind (variables a u)) n))"
  proof -
    fix u assume u: "variables b u \<noteq> variables a u"
    from grows_changed[OF ab u] obtain n where
      n: "n < index b" "variables b u = (variables a u)\<lparr>name := Some (freshName (kind (variables a u)) n)\<rparr>"
      by blast
    then have nb: "name (variables b u) = Some (freshName (kind (variables a u)) n)" by simp
    then have "variables c u = variables b u" using grows_keep[OF bc] by blast
    then show "variables c u = variables b u \<and> (\<exists>n. n < index b \<and> name (variables c u) = Some (freshName (kind (variables a u)) n))"
      using nb n(1) by auto
  qed
  have late: "\<And>u. variables b u = variables a u \<Longrightarrow> variables c u \<noteq> variables a u \<Longrightarrow>
      variables c u \<noteq> variables b u \<and> (\<exists>n. index b \<le> n \<and> name (variables c u) = Some (freshName (kind (variables b u)) n))"
  proof -
    fix u assume u: "variables b u = variables a u" "variables c u \<noteq> variables a u"
    then have ch: "variables c u \<noteq> variables b u" by simp
    from grows_changed[OF bc ch] obtain n where
      n: "index b \<le> n" "variables c u = (variables b u)\<lparr>name := Some (freshName (kind (variables b u)) n)\<rparr>"
      by blast
    then have "name (variables c u) = Some (freshName (kind (variables b u)) n)" by simp
    then show "variables c u \<noteq> variables b u \<and> (\<exists>n. index b \<le> n \<and> name (variables c u) = Some (freshName (kind (variables b u)) n))"
      using ch n(1) by auto
  qed
  show "name (variables c v) \<noteq> name (variables c w)"
  proof (cases "variables b v = variables a v")
    case vT: True
    show ?thesis
    proof (cases "variables b w = variables a w")
      case True
      then show ?thesis using grows_distinct[OF bc, of v w] late[OF vT] late[OF True] h by blast
    next
      case False
      from early[OF False] late[OF vT] h show ?thesis
        by (metis freshName_inj not_le option.inject)
    qed
  next
    case vF: False
    show ?thesis
    proof (cases "variables b w = variables a w")
      case True
      from early[OF vF] late[OF True] h show ?thesis
        by (metis freshName_inj not_le option.inject)
    next
      case False
      from early[OF vF] early[OF False] grows_distinct[OF ab, of v w] h vF False show ?thesis
        by metis
    qed
  qed
qed

lemma getVariableName_grows:
  assumes "getVariableName v st = (n, st')"
  shows "grows st st' \<and> name (variables st' v) = Some n"
proof (cases "name (variables st v)")
  case None
  then have st': "st' = st\<lparr>variables := (variables st)(v := (variables st v)\<lparr>name := Some (freshName (kind (variables st v)) (index st))\<rparr>),
                      index := index st + 1\<rparr>"
    and n: "n = freshName (kind (variables st v)) (index st)"
    using assms by (auto simp: getVariableName_def Let_def)
  have "grows st st'"
    unfolding grows_def st' using None by auto
  then show ?thesis using st' n by simp
next
  case (Some a)
  then show ?thesis using assms by (auto simp: getVariableName_def grows_refl)
qed

lemma nameOp_grows:
  "nameOp H jc uk fn b tdb k vn st = Inr (k', vn', st') \<Longrightarrow> grows st st'"
proof (cases k)
  case (Variable xref v)
  assume "nameOp H jc uk fn b tdb k vn st = Inr (k', vn', st')"
  then show ?thesis unfolding Variable
    using getVariableName_grows[of v st] by (auto split: prod.splits)
qed (auto simp: grows_refl Let_def split: if_splits option.splits)

lemma naming_grows:
  "\<forall>u' st1. addNamesToView H sfx jc uk u b st tdb = Inr (u', st1) \<longrightarrow> grows st st1"
  "\<forall>ops' vn' st3. addNamesToOps H2 sfx2 jc2 uk2 fn b2 tdb2 ops vn st2 = Inr (ops', vn', st3) \<longrightarrow> grows st2 st3"
proof (induction H sfx jc uk u b st tdb and H2 sfx2 jc2 uk2 fn b2 tdb2 ops vn st2
    rule: naming_induct)
  case (View H sfx jc uk fnm ops b st tdb)
  show ?case
  proof (intro allI impI)
    fix u' st1
    assume "addNamesToView H sfx jc uk (CompilationUnit fnm ops) b st tdb = Inr (u', st1)"
    then show "grows st st1" using View by (elim addNamesToViewE) blast
  qed
next
  case (Nil H sfx jc uk fn b tdb vn st)
  then show ?case by (simp add: grows_refl)
next
  case (Template H sfx jc uk fn b tdb xref tag ns slot child es rest vn st)
  show ?case
  proof (intro allI impI)
    fix ops' vn' st3
    assume "addNamesToOps H sfx jc uk fn b tdb (Op (Template xref tag ns slot child) es # rest) vn st
            = Inr (ops', vn', st3)"
    then show "grows st st3"
    proof (elim addNamesToOps_TemplateE)
      fix s cv cv' st' rest'
      assume h: "uk = ViewCompilationUnit" "slot = Some s" "child = Some cv"
        "addNamesToView H sfx jc ViewCompilationUnit cv
          (b @ ''_'' @ prefixWithNamespace H tag ns @ ''_'' @ string_of_nat s) st tdb = Inr (cv', st')"
        "addNamesToOps H sfx jc uk fn b tdb rest vn st' = Inr (rest', vn', st3)"
      have "grows st st'" using Template.IH(1)[OF h(1-3)] h(4) by blast
      moreover have "grows st' st3" using Template.IH(2)[OF h(1-4)] h(5) by blast
      ultimately show "grows st st3" by (rule grows_trans)
    qed
  qed
next
  case (Plain H sfx jc uk fn b tdb k es rest vn st)
  show ?case
  proof (intro allI impI)
    fix ops' vn' st3
    assume "addNamesToOps H sfx jc uk fn b tdb (Op k es # rest) vn st = Inr (ops', vn', st3)"
    then show "grows st st3"
    proof (elim addNamesToOps_plainE[OF Plain.hyps])
      fix k' vn1 st' rest'
      assume h: "nameOp H jc uk fn b tdb k vn st = Inr (k', vn1, st')"
        "addNamesToOps H sfx jc uk fn b tdb rest vn1 st' = Inr (rest', vn', st3)"
      have "grows st st'" using nameOp_grows[OF h(1)] .
      moreover have "grows st' st3" using Plain.IH[OF h(1)] h(2) by blast
      ultimately show "grows st st3" by (rule grows_trans)
    qed
  qed
qed

lemma grows_named:
  "grows st st' \<Longrightarrow> name (variables st v) \<noteq> None \<Longrightarrow> name (variables st' v) = name (variables st v)"
  using grows_keep by fastforce

lemma nameOp_table:
  assumes "nameOp H jc uk fn b tdb k vn st = Inr (k', vn1, st1)"
  shows "case k of Variable y v \<Rightarrow> \<exists>n. vn1 = vn(y \<mapsto> n) \<and> name (variables st1 v) = Some n
         | _ \<Rightarrow> vn1 = vn"
proof (cases k)
  case (Variable y v)
  obtain n s where g: "getVariableName v st = (n, s)" by (cases "getVariableName v st")
  then show ?thesis using assms getVariableName_grows[OF g] unfolding Variable by auto
qed (use assms in \<open>auto simp: Let_def split: if_splits option.splits\<close>)

lemma opsVarRefs_plain:
  "\<not> isTemplate k \<Longrightarrow>
   opsVarRefs (Op k es # rest) = (case k of Variable y v \<Rightarrow> v # opsVarRefs rest | _ \<Rightarrow> opsVarRefs rest)"
  by (cases k) (simp_all add: isTemplate_def)

lemma naming_named:
  "\<forall>u' st1. addNamesToView H sfx jc uk u b st tdb = Inr (u', st1) \<longrightarrow>
      (\<forall>v \<in> set (unitVarRefs u). name (variables st1 v) \<noteq> None)"
  "\<forall>ops' vn' st3. addNamesToOps H2 sfx2 jc2 uk2 fn b2 tdb2 ops vn st2 = Inr (ops', vn', st3) \<longrightarrow>
      (\<forall>v \<in> set (opsVarRefs ops). name (variables st3 v) \<noteq> None)"
proof (induction H sfx jc uk u b st tdb and H2 sfx2 jc2 uk2 fn b2 tdb2 ops vn st2
    rule: naming_induct)
  case (View H sfx jc uk fnm ops b st tdb)
  show ?case
  proof (intro allI impI)
    fix u' st1
    assume "addNamesToView H sfx jc uk (CompilationUnit fnm ops) b st tdb = Inr (u', st1)"
    then show "\<forall>v \<in> set (unitVarRefs (CompilationUnit fnm ops)). name (variables st1 v) \<noteq> None"
      using View by (elim addNamesToViewE) simp
  qed
next
  case (Nil H sfx jc uk fn b tdb vn st)
  then show ?case by simp
next
  case (Template H sfx jc uk fn b tdb xref tag ns slot child es rest vn st)
  show ?case
  proof (intro allI impI)
    fix ops' vn' st3
    assume "addNamesToOps H sfx jc uk fn b tdb (Op (Template xref tag ns slot child) es # rest) vn st
            = Inr (ops', vn', st3)"
    then show "\<forall>v \<in> set (opsVarRefs (Op (Template xref tag ns slot child) es # rest)).
                 name (variables st3 v) \<noteq> None"
    proof (elim addNamesToOps_TemplateE)
      fix s cv cv' st' rest'
      assume h: "uk = ViewCompilationUnit" "slot = Some s" "child = Some cv"
        "addNamesToView H sfx jc ViewCompilationUnit cv
          (b @ ''_'' @ prefixWithNamespace H tag ns @ ''_'' @ string_of_nat s) st tdb = Inr (cv', st')"
        "addNamesToOps H sfx jc uk fn b tdb rest vn st' = Inr (rest', vn', st3)"
      have 1: "\<forall>v \<in> set (unitVarRefs cv). name (variables st' v) \<noteq> None"
        using Template.IH(1)[OF h(1-3)] h(4) by blast
      have 2: "\<forall>v \<in> set (opsVarRefs rest). name (variables st3 v) \<noteq> None"
        using Template.IH(2)[OF h(1-4)] h(5) by blast
      have g: "grows st' st3" using naming_grows(2) h(5) by blast
      show ?thesis using 1 2 grows_named[OF g] h(3) by auto
    qed
  qed
next
  case (Plain H sfx jc uk fn b tdb k es rest vn st)
  show ?case
  proof (intro allI impI)
    fix ops' vn' st3
    assume "addNamesToOps H sfx jc uk fn b tdb (Op k es # rest) vn st = Inr (ops', vn', st3)"
    then show "\<forall>v \<in> set (opsVarRefs (Op k es # rest)). name (variables st3 v) \<noteq> None"
    proof (elim addNamesToOps_plainE[OF Plain.hyps])
      fix k' vn1 st' rest'
      assume h: "nameOp H jc uk fn b tdb k vn st = Inr (k', vn1, st')"
        "addNamesToOps H sfx jc uk fn b tdb rest vn1 st' = Inr (rest', vn', st3)"
      have 2: "\<forall>v \<in> set (opsVarRefs rest). name (variables st3 v) \<noteq> None"
        using Plain.IH[OF h(1)] h(2) by blast
      have g: "grows st' st3" using naming_grows(2) h(2) by blast
      show ?thesis
        using 2 nameOp_table[OF h(1)] grows_named[OF g]
        unfolding opsVarRefs_plain[OF Plain.hyps]
        by (cases k) auto
    qed
  qed
qed

subsection \<open>Variables\<close>

text \<open>
  Claim C2. When the phase succeeds on a job, every variable that a \<open>Variable\<close>
  operation of the root unit or of a nested view refers to and that had no name gets
  \<open>ctx_r<N>\<close> (a context variable), \<open><identifier>_<N>\<close> (an identifier) or \<open>_r<N>\<close>
  (any other kind), with \<open>N\<close> below the final value of the job's one counter; two
  different such variables get different names, wherever in the tree of views they are
  declared; and a variable that had a name keeps it.
\<close>

theorem variable_names_distinct:
  assumes "phaseNaming H cpl heap = Inr (u', st')"
  shows "(\<forall>v \<in> set (unitVarRefs (root cpl)). name (heap v) = None \<longrightarrow>
            (\<exists>n < index st'. name (variables st' v) =
               Some (case kind (heap v) of
                       Context \<Rightarrow> ''ctx_r'' @ string_of_nat n
                     | Identifier ident \<Rightarrow> ident @ ''_'' @ string_of_nat n
                     | SavedView \<Rightarrow> ''_r'' @ string_of_nat n)))
       \<and> (\<forall>v \<in> set (unitVarRefs (root cpl)). \<forall>w \<in> set (unitVarRefs (root cpl)).
            v \<noteq> w \<and> name (heap v) = None \<and> name (heap w) = None \<longrightarrow>
            name (variables st' v) \<noteq> name (variables st' w))
       \<and> (\<forall>v. name (heap v) \<noteq> None \<longrightarrow> variables st' v = heap v)"
proof -
  let ?st = "\<lparr>variables = heap, index = 0\<rparr>"
  have run: "addNamesToView H (fnSuffix cpl) (compatibility cpl) (rootKind cpl) (root cpl)
       (componentName cpl) ?st (compatibility cpl = TemplateDefinitionBuilder) = Inr (u', st')"
    using assms by (simp add: phaseNaming_def)
  have g: "grows ?st st'" using naming_grows(1) run by blast
  have nm: "\<forall>v \<in> set (unitVarRefs (root cpl)). name (variables st' v) \<noteq> None"
    using naming_named(1) run by blast
  have ch: "\<And>v. v \<in> set (unitVarRefs (root cpl)) \<Longrightarrow> name (heap v) = None \<Longrightarrow>
      variables st' v \<noteq> variables ?st v"
    using nm by force
  show ?thesis
  proof (intro conjI ballI impI allI)
    fix v assume v: "v \<in> set (unitVarRefs (root cpl))" "name (heap v) = None"
    from grows_changed[OF g ch[OF v]] obtain n where
      n: "n < index st'" "variables st' v = (heap v)\<lparr>name := Some (freshName (kind (heap v)) n)\<rparr>"
      by auto
    then have "name (variables st' v) = Some (freshName (kind (heap v)) n)" by simp
    then show "\<exists>n < index st'. name (variables st' v) =
               Some (case kind (heap v) of
                       Context \<Rightarrow> ''ctx_r'' @ string_of_nat n
                     | Identifier ident \<Rightarrow> ident @ ''_'' @ string_of_nat n
                     | SavedView \<Rightarrow> ''_r'' @ string_of_nat n)"
      using n(1) unfolding freshName_def by auto
  next
    fix v w
    assume "v \<in> set (unitVarRefs (root cpl))" "w \<in> set (unitVarRefs (root cpl))"
      "v \<noteq> w \<and> name (heap v) = None \<and> name (heap w) = None"
    then show "name (variables st' v) \<noteq> name (variables st' w)"
      using grows_distinct[OF g, of v w] ch by simp
  next
    fix v assume "name (heap v) \<noteq> None"
    then show "variables st' v = heap v" using grows_keep[OF g, of v] by auto
  qed
qed

theorem variable_names_distinct_witness:
  "\<exists>u' st'. phaseNaming plainHelpers twoViews (variables freshState) = Inr (u', st')
     \<and> set (unitVarRefs (root twoViews)) = {10, 11}
     \<and> name (variables freshState 10) = None \<and> name (variables freshState 11) = None
     \<and> name (variables st' 10) = Some ''ctx_r0'' \<and> name (variables st' 11) = Some ''ctx_r1''
     \<and> name (variables st' 10) \<noteq> name (variables st' 11)"
proof -
  obtain r where r: "phaseNaming plainHelpers twoViews (variables freshState) = r" by simp
  then obtain u' st' where ok: "r = Inr (u', st')"
    and n: "name (variables st' 10) = Some ''ctx_r0''" "name (variables st' 11) = Some ''ctx_r1''"
    by (auto simp: phaseNaming_def twoViews_def plainHelpers_def freshState_def getVariableName_def
      freshName_def string_of_nat.simps digit_char_def Let_def)
  have refs: "set (unitVarRefs (root twoViews)) = {10, 11}"
    by (auto simp: twoViews_def)
  have un: "name (variables freshState 10) = None" "name (variables freshState 11) = None"
    by (simp_all add: freshState_def)
  from variable_names_distinct[OF r[unfolded ok]] refs un
  have "name (variables st' 10) \<noteq> name (variables st' 11)" by auto
  then show ?thesis using r ok n refs un by blast
qed

subsection \<open>Reads of variables\<close>

lemma addNamesToOps_exprs:
  "addNamesToOps H sfx jc uk fn b tdb ops vn st = Inr (ops', vn', st') \<Longrightarrow>
   map opExprs ops' = map opExprs ops"
proof (induction ops arbitrary: vn st ops' vn' st')
  case Nil
  then show ?case by simp
next
  case (Cons op rest)
  obtain k es where op: "op = Op k es" by (cases op)
  show ?case
  proof (cases "isTemplate k")
    case True
    then obtain xref tag ns slot child where k: "k = Template xref tag ns slot child"
      using isTemplateE by blast
    show ?thesis
      using Cons.prems unfolding op k
      by (elim addNamesToOps_TemplateE) (use Cons.IH in auto)
  next
    case False
    show ?thesis
      using Cons.prems unfolding op
      by (elim addNamesToOps_plainE[OF False]) (use Cons.IH in auto)
  qed
qed

lemma declared_Cons_Variable:
  "declared (Op (Variable y v) es # rest) x =
     (case declared rest x of Some w \<Rightarrow> Some w | None \<Rightarrow> if y = x then Some v else None)"
  by (auto split: option.splits)

lemma declared_Cons_other:
  "(\<And>y v. k \<noteq> Variable y v) \<Longrightarrow> declared (Op k es # rest) x = declared rest x"
  by (cases k) (auto split: option.splits)

lemma addNamesToOps_table:
  "addNamesToOps H sfx jc uk fn b tdb ops vn st = Inr (ops', vn', st') \<Longrightarrow>
   vn' x = (case declared ops x of Some v \<Rightarrow> name (variables st' v) | None \<Rightarrow> vn x)"
proof (induction ops arbitrary: vn st ops' vn' st')
  case Nil
  then show ?case by simp
next
  case (Cons op rest)
  obtain k es where op: "op = Op k es" by (cases op)
  show ?case
  proof (cases "isTemplate k")
    case True
    then obtain xref tag ns slot child where k: "k = Template xref tag ns slot child"
      using isTemplateE by blast
    show ?thesis
      using Cons.prems unfolding op k
    proof (elim addNamesToOps_TemplateE)
      fix s cv cv' st1 rest'
      assume "addNamesToOps H sfx jc uk fn b tdb rest vn st1 = Inr (rest', vn', st')"
      from Cons.IH[OF this] show "vn' x =
        (case declared (Op (Template xref tag ns slot child) es # rest) x of
           Some v \<Rightarrow> name (variables st' v) | None \<Rightarrow> vn x)"
        by (auto split: option.splits)
    qed
  next
    case False
    show ?thesis
      using Cons.prems unfolding op
    proof (elim addNamesToOps_plainE[OF False])
      fix k' vn1 st1 rest'
      assume h: "nameOp H jc uk fn b tdb k vn st = Inr (k', vn1, st1)"
        "addNamesToOps H sfx jc uk fn b tdb rest vn1 st1 = Inr (rest', vn', st')"
      have g: "grows st1 st'" using naming_grows(2) h(2) by blast
      note ih = Cons.IH[OF h(2)]
      show "vn' x = (case declared (Op k es # rest) x of
           Some v \<Rightarrow> name (variables st' v) | None \<Rightarrow> vn x)"
      proof (cases "\<exists>y v. k = Variable y v")
        case True
        then obtain y v where k: "k = Variable y v" by blast
        from nameOp_table[OF h(1)] obtain n where
          n: "vn1 = vn(y \<mapsto> n)" "name (variables st1 v) = Some n"
          unfolding k by auto
        have "name (variables st' v) = Some n" using grows_named[OF g, of v] n(2) by simp
        then show ?thesis using ih n(1) unfolding k declared_Cons_Variable
          by (auto split: option.splits)
      next
        case False
        then have "vn1 = vn" using nameOp_table[OF h(1)] by (cases k) auto
        moreover have "declared (Op k es # rest) x = declared rest x"
          using False by (intro declared_Cons_other) blast
        ultimately show ?thesis using ih by (auto split: option.splits)
      qed
    qed
  qed
qed

lemma opsVarRefs_Cons: "set (opsVarRefs rest) \<subseteq> set (opsVarRefs (op # rest))"
  by (cases "op # rest" rule: opsVarRefs.cases) auto

lemma declared_refs: "declared ops x = Some v \<Longrightarrow> v \<in> set (opsVarRefs ops)"
proof (induction ops)
  case Nil
  then show ?case by simp
next
  case (Cons op rest)
  obtain k es where op: "op = Op k es" by (cases op)
  show ?case
  proof (cases "declared rest x")
    case None
    then obtain y where "k = Variable y v" using Cons.prems unfolding op
      by (cases k) (auto split: if_splits)
    then show ?thesis unfolding op by simp
  next
    case (Some w)
    then have "w = v" using Cons.prems unfolding op by simp
    then show ?thesis using Cons.IH Some opsVarRefs_Cons[of rest op] by auto
  qed
qed

lemma resolveExprs_fill:
  "resolveExprs vn es = Inr es' \<Longrightarrow>
   es' = map (fillRead vn) es \<and> set (concat (map unsetRead es)) \<subseteq> dom vn"
proof (induction es arbitrary: es')
  case Nil
  then show ?case by simp
next
  case (Cons e es)
  from Cons.prems obtain e' es1 where
    e: "resolveExpr vn e = Inr e'" and r: "resolveExprs vn es = Inr es1" and es': "es' = e' # es1"
    by (auto split: sum.splits)
  have "e' = fillRead vn e \<and> set (unsetRead e) \<subseteq> dom vn"
    using e by (cases "(vn, e)" rule: resolveExpr.cases) (auto split: option.splits)
  then show ?case using Cons.IH[OF r] es' by auto
qed

lemma resolveOps_fill:
  "resolveOps vn ops = Inr ops' \<Longrightarrow>
   map opExprs ops' = map (\<lambda>op. map (fillRead vn) (opExprs op)) ops \<and> set (unsetReads ops) \<subseteq> dom vn"
proof (induction ops arbitrary: ops')
  case Nil
  then show ?case by (simp add: unsetReads_def)
next
  case (Cons op rest)
  obtain k es where op: "op = Op k es" by (cases op)
  from Cons.prems obtain es' rest' where
    e: "resolveExprs vn es = Inr es'" and r: "resolveOps vn rest = Inr rest'"
    and o: "ops' = Op k es' # rest'"
    unfolding op by (auto split: sum.splits)
  show ?case
    using resolveExprs_fill[OF e] Cons.IH[OF r] unfolding op o
    by (auto simp: unsetReads_def)
qed

lemma resolveExprs_error:
  "x \<in> set (concat (map unsetRead es)) \<Longrightarrow> vn x = None \<Longrightarrow>
   \<exists>y. y \<in> set (concat (map unsetRead es)) \<and> vn y = None \<and>
       resolveExprs vn es = Inl (Error (''Variable '' @ string_of_nat y @ '' not yet named''))"
proof (induction es)
  case Nil
  then show ?case by simp
next
  case (Cons e es)
  show ?case
  proof (cases "resolveExpr vn e")
    case (Inl err)
    then obtain y where "e = ReadVariableExpr y None" "vn y = None"
      "err = Error (''Variable '' @ string_of_nat y @ '' not yet named'')"
      by (cases "(vn, e)" rule: resolveExpr.cases) (auto split: option.splits)
    then show ?thesis using Inl by auto
  next
    case (Inr e')
    then have "x \<notin> set (unsetRead e)"
      using Cons.prems(2)
      by (cases "(vn, e)" rule: resolveExpr.cases) (auto split: option.splits)
    then have "x \<in> set (concat (map unsetRead es))" using Cons.prems(1) by simp
    from Cons.IH[OF this Cons.prems(2)] show ?thesis using Inr by auto
  qed
qed

lemma resolveExprs_ok:
  "\<forall>z \<in> set (concat (map unsetRead es)). vn z \<noteq> None \<Longrightarrow> \<exists>es'. resolveExprs vn es = Inr es'"
proof (induction es)
  case Nil
  then show ?case by simp
next
  case (Cons e es)
  then obtain es' where "resolveExprs vn es = Inr es'" by auto
  moreover have "\<exists>e'. resolveExpr vn e = Inr e'"
    using Cons.prems by (cases "(vn, e)" rule: resolveExpr.cases) (auto split: option.splits)
  ultimately show ?case by auto
qed

lemma resolveOps_error:
  "x \<in> set (unsetReads ops) \<Longrightarrow> vn x = None \<Longrightarrow>
   \<exists>y. y \<in> set (unsetReads ops) \<and> vn y = None \<and>
       resolveOps vn ops = Inl (Error (''Variable '' @ string_of_nat y @ '' not yet named''))"
proof (induction ops)
  case Nil
  then show ?case by (simp add: unsetReads_def)
next
  case (Cons op rest)
  obtain k es where op: "op = Op k es" by (cases op)
  show ?case
  proof (cases "resolveExprs vn es")
    case (Inl err)
    have "\<not> (\<forall>z \<in> set (concat (map unsetRead es)). vn z \<noteq> None)"
      using resolveExprs_ok[of es vn] Inl by fastforce
    then have "\<exists>z. z \<in> set (concat (map unsetRead es)) \<and> vn z = None"
      unfolding Ball_def by (metis (no_types, lifting))
    then obtain z where z: "z \<in> set (concat (map unsetRead es))" "vn z = None" by blast
    from resolveExprs_error[of z es vn] z show ?thesis using Inl unfolding op
      by (auto simp: unsetReads_def)
  next
    case (Inr es')
    then have "set (concat (map unsetRead es)) \<subseteq> dom vn" using resolveExprs_fill by blast
    then have "x \<in> set (unsetReads rest)"
      using Cons.prems unfolding op by (auto simp: unsetReads_def)
    from Cons.IH[OF this Cons.prems(2)] obtain y where
      y: "y \<in> set (unsetReads rest)" "vn y = None"
        "resolveOps vn rest = Inl (Error (''Variable '' @ string_of_nat y @ '' not yet named''))"
      by blast
    have "y \<in> set (unsetReads (op # rest))" using y(1) by (simp add: unsetReads_def)
    moreover have "resolveOps vn (op # rest)
        = Inl (Error (''Variable '' @ string_of_nat y @ '' not yet named''))"
      using Inr y(3) unfolding op by simp
    ultimately show ?thesis using y(2) by blast
  qed
qed

lemma unsetReads_exprs: "map opExprs ops' = map opExprs ops \<Longrightarrow> unsetReads ops' = unsetReads ops"
proof -
  assume a: "map opExprs ops' = map opExprs ops"
  have e: "unsetReads ops = concat (map (\<lambda>es. concat (map unsetRead es)) (map opExprs ops))" for ops
    by (simp add: unsetReads_def o_def)
  show ?thesis by (simp only: e a)
qed

text \<open>
  Claim C3. When naming a unit succeeds, the expressions of every operation are the
  ones before with each unset read filled in with the name of the variable that the
  unit's own \<open>Variable\<close> operations declare for its xref, and every unset read has such
  a declaration. When some unset read's xref is declared by no \<open>Variable\<close> operation
  of the unit, naming the unit fails; if the first loop gets through, the failure is the
  plain \<open>Error\<close> \<open>Variable <xref> not yet named\<close> for an undeclared xref.
\<close>

theorem read_resolution:
  "(\<forall>u' st'. addNamesToView H sfx jc uk u b st tdb = Inr (u', st') \<longrightarrow>
       map opExprs (unitOps u') =
         map (\<lambda>op. map (fillRead (\<lambda>x. case declared (unitOps u) x of
                                         None \<Rightarrow> None
                                       | Some v \<Rightarrow> name (variables st' v)))
                        (opExprs op))
             (unitOps u)
       \<and> (\<forall>x \<in> set (unsetReads (unitOps u)). \<exists>v n. declared (unitOps u) x = Some v
              \<and> name (variables st' v) = Some n))
   \<and> ((\<exists>x \<in> set (unsetReads (unitOps u)). declared (unitOps u) x = None) \<longrightarrow>
        (\<exists>e. addNamesToView H sfx jc uk u b st tdb = Inl e)
        \<and> (\<forall>ops1 vn st1.
             addNamesToOps H sfx jc uk
               (case fnName u of None \<Rightarrow> sanitizeIdentifier H (b @ ''_'' @ sfx) | Some f \<Rightarrow> f)
               b tdb (unitOps u) Map.empty st = Inr (ops1, vn, st1) \<longrightarrow>
             (\<exists>y. y \<in> set (unsetReads (unitOps u)) \<and> declared (unitOps u) y = None \<and>
                addNamesToView H sfx jc uk u b st tdb =
                  Inl (Error (''Variable '' @ string_of_nat y @ '' not yet named'')))))"
proof -
  obtain fnm ops where u: "u = CompilationUnit fnm ops" by (cases u)
  define fn where "fn = (case fnm of None \<Rightarrow> sanitizeIdentifier H (b @ ''_'' @ sfx) | Some f \<Rightarrow> f)"
  have loop: "\<And>ops1 vn st1. addNamesToOps H sfx jc uk fn b tdb ops Map.empty st = Inr (ops1, vn, st1)
      \<Longrightarrow> unsetReads ops1 = unsetReads ops \<and> map opExprs ops1 = map opExprs ops
        \<and> vn = (\<lambda>x. case declared ops x of None \<Rightarrow> None | Some v \<Rightarrow> name (variables st1 v))"
  proof -
    fix ops1 vn st1
    assume a: "addNamesToOps H sfx jc uk fn b tdb ops Map.empty st = Inr (ops1, vn, st1)"
    have "\<And>x. vn x = (case declared ops x of None \<Rightarrow> None | Some v \<Rightarrow> name (variables st1 v))"
      using addNamesToOps_table[OF a] by (auto split: option.splits)
    then show "unsetReads ops1 = unsetReads ops \<and> map opExprs ops1 = map opExprs ops
        \<and> vn = (\<lambda>x. case declared ops x of None \<Rightarrow> None | Some v \<Rightarrow> name (variables st1 v))"
      using addNamesToOps_exprs[OF a] unsetReads_exprs by blast
  qed
  have ok: "\<And>u' st'. addNamesToView H sfx jc uk u b st tdb = Inr (u', st') \<Longrightarrow>
       map opExprs (unitOps u') =
         map (\<lambda>op. map (fillRead (\<lambda>x. case declared ops x of
                                         None \<Rightarrow> None
                                       | Some v \<Rightarrow> name (variables st' v)))
                        (opExprs op)) ops
       \<and> (\<forall>x \<in> set (unsetReads ops). \<exists>v n. declared ops x = Some v
              \<and> name (variables st' v) = Some n)"
  proof -
    fix u' st'
    assume "addNamesToView H sfx jc uk u b st tdb = Inr (u', st')"
    then obtain ops1 vn ops2 where
      a: "addNamesToOps H sfx jc uk fn b tdb ops Map.empty st = Inr (ops1, vn, st')"
      and r: "resolveOps vn ops1 = Inr ops2" and u': "u' = CompilationUnit (Some fn) ops2"
      unfolding u fn_def by (elim addNamesToViewE)
    note l = loop[OF a]
    from resolveOps_fill[OF r] have
      f: "map opExprs ops2 = map (\<lambda>op. map (fillRead vn) (opExprs op)) ops1"
      and d: "set (unsetReads ops1) \<subseteq> dom vn" by simp_all
    have "map (\<lambda>op. map (fillRead vn) (opExprs op)) ops1
        = map (map (fillRead vn)) (map opExprs ops1)" by simp
    also have "\<dots> = map (map (fillRead vn)) (map opExprs ops)" using l by simp
    also have "\<dots> = map (\<lambda>op. map (fillRead vn) (opExprs op)) ops" by simp
    finally have 1: "map opExprs (unitOps u') = map (\<lambda>op. map (fillRead vn) (opExprs op)) ops"
      using f u' by simp
    have 2: "\<forall>x \<in> set (unsetReads ops). \<exists>v n. declared ops x = Some v
              \<and> name (variables st' v) = Some n"
    proof
      fix x assume "x \<in> set (unsetReads ops)"
      then have "x \<in> dom vn" using d l by auto
      then show "\<exists>v n. declared ops x = Some v \<and> name (variables st' v) = Some n"
        using l by (auto split: option.splits)
    qed
    show "map opExprs (unitOps u') =
         map (\<lambda>op. map (fillRead (\<lambda>x. case declared ops x of
                                         None \<Rightarrow> None
                                       | Some v \<Rightarrow> name (variables st' v)))
                        (opExprs op)) ops
       \<and> (\<forall>x \<in> set (unsetReads ops). \<exists>v n. declared ops x = Some v
              \<and> name (variables st' v) = Some n)"
      using 1 2 l by simp
  qed
  have bad: "\<And>x. x \<in> set (unsetReads ops) \<Longrightarrow> declared ops x = None \<Longrightarrow>
      (\<exists>e. addNamesToView H sfx jc uk u b st tdb = Inl e)
        \<and> (\<forall>ops1 vn st1.
             addNamesToOps H sfx jc uk fn b tdb ops Map.empty st = Inr (ops1, vn, st1) \<longrightarrow>
             (\<exists>y. y \<in> set (unsetReads ops) \<and> declared ops y = None \<and>
                addNamesToView H sfx jc uk u b st tdb =
                  Inl (Error (''Variable '' @ string_of_nat y @ '' not yet named''))))"
  proof -
    fix x assume x: "x \<in> set (unsetReads ops)" "declared ops x = None"
    have 2: "\<forall>ops1 vn st1.
             addNamesToOps H sfx jc uk fn b tdb ops Map.empty st = Inr (ops1, vn, st1) \<longrightarrow>
             (\<exists>y. y \<in> set (unsetReads ops) \<and> declared ops y = None \<and>
                addNamesToView H sfx jc uk u b st tdb =
                  Inl (Error (''Variable '' @ string_of_nat y @ '' not yet named'')))"
    proof (intro allI impI)
      fix ops1 vn st1
      assume a: "addNamesToOps H sfx jc uk fn b tdb ops Map.empty st = Inr (ops1, vn, st1)"
      note l = loop[OF a]
      have "x \<in> set (unsetReads ops1)" "vn x = None" using x l by simp_all
      from resolveOps_error[of x ops1 vn] this obtain y where
        y: "y \<in> set (unsetReads ops1)" "vn y = None"
          "resolveOps vn ops1 = Inl (Error (''Variable '' @ string_of_nat y @ '' not yet named''))"
        by blast
      have "declared ops y = None"
      proof (cases "declared ops y")
        case None
        then show ?thesis .
      next
        case (Some v)
        have "v \<in> set (opsVarRefs ops)" using declared_refs[OF Some] .
        then have "name (variables st1 v) \<noteq> None" using naming_named(2) a by blast
        then show ?thesis using y(2) l Some by auto
      qed
      moreover have "addNamesToView H sfx jc uk u b st tdb =
                  Inl (Error (''Variable '' @ string_of_nat y @ '' not yet named''))"
        using a y(3) unfolding u fn_def by (simp add: Let_def)
      ultimately show "\<exists>y. y \<in> set (unsetReads ops) \<and> declared ops y = None \<and>
                addNamesToView H sfx jc uk u b st tdb =
                  Inl (Error (''Variable '' @ string_of_nat y @ '' not yet named''))"
        using y(1) l by auto
    qed
    have "\<exists>e. addNamesToView H sfx jc uk u b st tdb = Inl e"
    proof (cases "addNamesToOps H sfx jc uk fn b tdb ops Map.empty st")
      case (Inl e)
      then show ?thesis unfolding u fn_def by (simp add: Let_def)
    next
      case (Inr r)
      then show ?thesis using 2 by (cases r) auto
    qed
    then show "(\<exists>e. addNamesToView H sfx jc uk u b st tdb = Inl e)
        \<and> (\<forall>ops1 vn st1.
             addNamesToOps H sfx jc uk fn b tdb ops Map.empty st = Inr (ops1, vn, st1) \<longrightarrow>
             (\<exists>y. y \<in> set (unsetReads ops) \<and> declared ops y = None \<and>
                addNamesToView H sfx jc uk u b st tdb =
                  Inl (Error (''Variable '' @ string_of_nat y @ '' not yet named''))))"
      using 2 by blast
  qed
  show ?thesis using ok bad unfolding u fn_def by auto
qed

theorem read_resolution_witness:
  "(\<exists>u' st'. addNamesToView plainHelpers ''Template'' Normal ViewCompilationUnit readUnit ''Cmp''
        freshState False = Inr (u', st')
      \<and> map opExprs (unitOps u') = [[], [ReadVariableExpr 1 (Some ''ctx_r0''), OtherExpr]]
      \<and> declared (unitOps readUnit) 1 = Some 10 \<and> name (variables st' 10) = Some ''ctx_r0'')
   \<and> 7 \<in> set (unsetReads (unitOps danglingRead)) \<and> declared (unitOps danglingRead) 7 = None
   \<and> addNamesToView plainHelpers ''Template'' Normal ViewCompilationUnit danglingRead ''Cmp''
        freshState False = Inl (Error ''Variable 7 not yet named'')"
proof -
  obtain r where r: "addNamesToView plainHelpers ''Template'' Normal ViewCompilationUnit readUnit
      ''Cmp'' freshState False = r" by simp
  then obtain u' st' where ok: "r = Inr (u', st')"
    and n: "name (variables st' 10) = Some ''ctx_r0''"
    by (auto simp: readUnit_def plainHelpers_def freshState_def getVariableName_def
      freshName_def string_of_nat.simps digit_char_def Let_def)
  have d: "declared (unitOps readUnit) 1 = Some 10" by (simp add: readUnit_def)
  have m: "map opExprs (unitOps u') = [[], [ReadVariableExpr 1 (Some ''ctx_r0''), OtherExpr]]"
    using read_resolution[of plainHelpers "''Template''" Normal ViewCompilationUnit readUnit
        "''Cmp''" freshState False] r[unfolded ok] n
    by (simp add: readUnit_def)
  have a: "\<exists>u' st'. addNamesToView plainHelpers ''Template'' Normal ViewCompilationUnit readUnit ''Cmp''
        freshState False = Inr (u', st')
      \<and> map opExprs (unitOps u') = [[], [ReadVariableExpr 1 (Some ''ctx_r0''), OtherExpr]]
      \<and> declared (unitOps readUnit) 1 = Some 10 \<and> name (variables st' 10) = Some ''ctx_r0''"
    using r[unfolded ok] m d n by (intro exI[of _ u'] exI[of _ st']) simp
  have b: "7 \<in> set (unsetReads (unitOps danglingRead))"
    "declared (unitOps danglingRead) 7 = None"
    by (simp_all add: danglingRead_def unsetReads_def)
  have c: "addNamesToView plainHelpers ''Template'' Normal ViewCompilationUnit danglingRead
      ''Cmp'' freshState False = Inl (Error ''Variable 7 not yet named'')"
    using read_resolution[of plainHelpers "''Template''" Normal ViewCompilationUnit danglingRead
        "''Cmp''" freshState False]
    by (simp add: danglingRead_def plainHelpers_def string_of_nat.simps digit_char_def)
  show ?thesis using a b c by (intro conjI)
qed

subsection \<open>A pass over a populated job\<close>

lemma resolveExprs_stable:
  "resolveExprs vn es = Inr es' \<Longrightarrow> map stableExpr es' = map stableExpr es"
proof (induction es arbitrary: es')
  case Nil
  then show ?case by simp
next
  case (Cons e es)
  from Cons.prems obtain e' es1 where
    e: "resolveExpr vn e = Inr e'" and r: "resolveExprs vn es = Inr es1" and es': "es' = e' # es1"
    by (auto split: sum.splits)
  have "stableExpr e' = stableExpr e"
    using e by (cases "(vn, e)" rule: resolveExpr.cases) (auto split: option.splits)
  then show ?case using Cons.IH[OF r] es' by simp
qed

lemma stableOps_Cons:
  "stableOps l (Op k es # rest) =
     Op (case k of
           Template xref tag ns slot (Some cv) \<Rightarrow> Template xref tag ns slot (Some (stableUnit False cv))
         | _ \<Rightarrow> stableKind l k)
        (map stableExpr es) # stableOps l rest"
proof (cases k)
  case (Template xref tag ns slot child)
  then show ?thesis by (cases child) simp_all
qed simp_all

lemma resolveOps_stable:
  "resolveOps vn ops = Inr ops' \<Longrightarrow> stableOps l ops' = stableOps l ops"
proof (induction ops arbitrary: ops')
  case Nil
  then show ?case by simp
next
  case (Cons op rest)
  obtain k es where op: "op = Op k es" by (cases op)
  from Cons.prems obtain es' rest' where
    e: "resolveExprs vn es = Inr es'" and r: "resolveOps vn rest = Inr rest'"
    and o: "ops' = Op k es' # rest'"
    unfolding op by (auto split: sum.splits)
  show ?case
    using resolveExprs_stable[OF e] Cons.IH[OF r] unfolding op o stableOps_Cons by simp
qed

lemma opsPopulated_plain:
  "\<not> isTemplate k \<Longrightarrow>
   opsPopulated heap (Op k es # rest) =
     ((case k of Listener nm h slot tag isAnim phase \<Rightarrow> h \<noteq> None
               | Variable x v \<Rightarrow> name (heap v) \<noteq> None
               | _ \<Rightarrow> True) \<and> opsPopulated heap rest)"
  by (cases k) (simp_all add: isTemplate_def)

lemma stableOps_plain:
  "\<not> isTemplate k \<Longrightarrow>
   stableOps l (Op k es # rest) = Op (stableKind l k) (map stableExpr es) # stableOps l rest"
  by (cases k) (simp_all add: isTemplate_def)

lemma rerunOps_plain:
  "\<not> isTemplate k \<Longrightarrow>
   rerunOps H tdb (Op k es # rest) = Op (rerunKind H tdb k) es # rerunOps H tdb rest
   \<and> \<not> isTemplate (rerunKind H tdb k)"
  by (cases k) (simp_all add: isTemplate_def)

lemma startsWith_take: "startsWith (take n s) p \<Longrightarrow> startsWith s p"
proof -
  assume a: "startsWith (take n s) p"
  then have e: "take (length p) (take n s) = p" by (simp add: startsWith_def)
  then have "length (take (length p) (take n s)) = length p" by simp
  then have "length p \<le> n" by (simp add: min_def split: if_splits)
  then have "take (length p) (take n s) = take (length p) s" by (simp add: min_def)
  then show ?thesis using e by (simp add: startsWith_def)
qed

lemma indexOfFrom_lower: "indexOfFrom k s p = Some i \<Longrightarrow> k \<le> i"
proof (induction s arbitrary: k)
  case Nil
  then show ?case by (simp split: if_splits)
next
  case (Cons c cs)
  show ?case
  proof (cases "startsWith (c # cs) p")
    case True
    then show ?thesis using Cons.prems by simp
  next
    case False
    then have "indexOfFrom (Suc k) cs p = Some i" using Cons.prems by simp
    from Cons.IH[OF this] show ?thesis by simp
  qed
qed

lemma indexOfFrom_take:
  "p \<noteq> [] \<Longrightarrow> indexOfFrom k s p = Some i \<Longrightarrow> indexOfFrom k (take (i - k) s) p = None"
proof (induction s arbitrary: k)
  case Nil
  then show ?case by simp
next
  case (Cons c cs)
  show ?case
  proof (cases "startsWith (c # cs) p")
    case True
    then have "i = k" using Cons.prems by simp
    then show ?thesis using Cons.prems(1) by simp
  next
    case False
    then have r: "indexOfFrom (Suc k) cs p = Some i" using Cons.prems by simp
    from indexOfFrom_lower[OF r] have l: "Suc k \<le> i" .
    then have "i - k = Suc (i - Suc k)" by simp
    then have t: "take (i - k) (c # cs) = c # take (i - Suc k) cs" by simp
    have n: "\<not> startsWith (c # take (i - Suc k) cs) p"
      using False startsWith_take[of "i - k" "c # cs" p] unfolding t by blast
    show ?thesis unfolding t using n Cons.IH[OF Cons.prems(1) r] by simp
  qed
qed

lemma cutImportant_idem: "cutImportant tdb (cutImportant tdb nm) = cutImportant tdb nm"
proof (cases "tdb \<and> indexOf nm ''!important'' \<noteq> None")
  case False
  then show ?thesis by (auto simp: cutImportant_def)
next
  case True
  then obtain i where i: "indexOf nm ''!important'' = Some i" by auto
  have "indexOf (take i nm) ''!important'' = None"
    using indexOfFrom_take[of "''!important''" 0 nm i] i by (simp add: indexOf_def)
  then show ?thesis using True i by (simp add: cutImportant_def)
qed

lemma nameOp_stable:
  assumes "\<not> isTemplate k" and "opsPopulated (variables st) (Op k es # rest)"
    and "nameOp H jc uk fn b tdb k vn st = Inr (k', vn1, st1)"
  shows "st1 = st \<and> \<not> isTemplate k' \<and>
         stableKind (jc = TemplateDefinitionBuilder \<and> uk = HostBindingCompilationUnit) k'
         = stableKind (jc = TemplateDefinitionBuilder \<and> uk = HostBindingCompilationUnit)
             (rerunKind H tdb k)"
  using assms unfolding opsPopulated_plain[OF assms(1)]
  by (cases k) (auto simp: isTemplate_def getVariableName_def Let_def normalizeStylePropName_def
      stripImportant_def cutImportant_def split: if_splits option.splits)

lemma naming_stable:
  "\<forall>u' st1. namesPopulated (variables st) u \<longrightarrow>
      addNamesToView H sfx jc uk u b st tdb = Inr (u', st1) \<longrightarrow>
      st1 = st \<and>
      stableUnit (jc = TemplateDefinitionBuilder \<and> uk = HostBindingCompilationUnit) u'
      = stableUnit (jc = TemplateDefinitionBuilder \<and> uk = HostBindingCompilationUnit)
          (rerunUnit H tdb u)"
  "\<forall>ops' vn' st3. opsPopulated (variables st2) ops \<longrightarrow>
      addNamesToOps H2 sfx2 jc2 uk2 fn b2 tdb2 ops vn st2 = Inr (ops', vn', st3) \<longrightarrow>
      st3 = st2 \<and>
      stableOps (jc2 = TemplateDefinitionBuilder \<and> uk2 = HostBindingCompilationUnit) ops'
      = stableOps (jc2 = TemplateDefinitionBuilder \<and> uk2 = HostBindingCompilationUnit)
          (rerunOps H2 tdb2 ops)"
proof (induction H sfx jc uk u b st tdb and H2 sfx2 jc2 uk2 fn b2 tdb2 ops vn st2
    rule: naming_induct)
  case (View H sfx jc uk fnm ops b st tdb)
  let ?l = "jc = TemplateDefinitionBuilder \<and> uk = HostBindingCompilationUnit"
  show ?case
  proof (intro allI impI)
    fix u' st1
    assume p: "namesPopulated (variables st) (CompilationUnit fnm ops)"
      and r: "addNamesToView H sfx jc uk (CompilationUnit fnm ops) b st tdb = Inr (u', st1)"
    from p obtain f where f: "fnm = Some f" and po: "opsPopulated (variables st) ops" by auto
    from r show "st1 = st \<and> stableUnit ?l u' = stableUnit ?l (rerunUnit H tdb (CompilationUnit fnm ops))"
    proof (elim addNamesToViewE)
      fix ops1 vn ops2
      assume h: "addNamesToOps H sfx jc uk
          (case fnm of None \<Rightarrow> sanitizeIdentifier H (b @ ''_'' @ sfx) | Some f \<Rightarrow> f)
          b tdb ops Map.empty st = Inr (ops1, vn, st1)"
        "resolveOps vn ops1 = Inr ops2"
        "u' = CompilationUnit
          (Some (case fnm of None \<Rightarrow> sanitizeIdentifier H (b @ ''_'' @ sfx) | Some f \<Rightarrow> f)) ops2"
      have "st1 = st \<and> stableOps ?l ops1 = stableOps ?l (rerunOps H tdb ops)"
        using View po h(1) by blast
      then show ?thesis using resolveOps_stable[OF h(2), of ?l] h(3) f by simp
    qed
  qed
next
  case (Nil H sfx jc uk fn b tdb vn st)
  then show ?case by simp
next
  case (Template H sfx jc uk fn b tdb xref tag ns slot child es rest vn st)
  let ?l = "jc = TemplateDefinitionBuilder \<and> uk = HostBindingCompilationUnit"
  show ?case
  proof (intro allI impI)
    fix ops' vn' st3
    assume p: "opsPopulated (variables st) (Op (Template xref tag ns slot child) es # rest)"
      and "addNamesToOps H sfx jc uk fn b tdb (Op (Template xref tag ns slot child) es # rest) vn st
            = Inr (ops', vn', st3)"
    then show "st3 = st \<and> stableOps ?l ops'
        = stableOps ?l (rerunOps H tdb (Op (Template xref tag ns slot child) es # rest))"
    proof (elim addNamesToOps_TemplateE)
      fix s cv cv' st' rest'
      assume h: "uk = ViewCompilationUnit" "slot = Some s" "child = Some cv"
        "addNamesToView H sfx jc ViewCompilationUnit cv
          (b @ ''_'' @ prefixWithNamespace H tag ns @ ''_'' @ string_of_nat s) st tdb = Inr (cv', st')"
        "addNamesToOps H sfx jc uk fn b tdb rest vn st' = Inr (rest', vn', st3)"
        "ops' = Op (Template xref tag ns slot (Some cv')) es # rest'"
      from p h(3) have pc: "namesPopulated (variables st) cv" and pr: "opsPopulated (variables st) rest"
        by simp_all
      have l: "(jc = TemplateDefinitionBuilder \<and> ViewCompilationUnit = HostBindingCompilationUnit) = False"
        by simp
      have 1: "st' = st \<and> stableUnit False cv' = stableUnit False (rerunUnit H tdb cv)"
        using Template.IH(1)[OF h(1-3)] pc h(4) unfolding l by blast
      then have 2: "st3 = st \<and> stableOps ?l rest' = stableOps ?l (rerunOps H tdb rest)"
        using Template.IH(2)[OF h(1-4)] pr h(5) by auto
      show ?thesis using 1 2 h(3,6) by simp
    qed
  qed
next
  case (Plain H sfx jc uk fn b tdb k es rest vn st)
  let ?l = "jc = TemplateDefinitionBuilder \<and> uk = HostBindingCompilationUnit"
  show ?case
  proof (intro allI impI)
    fix ops' vn' st3
    assume p: "opsPopulated (variables st) (Op k es # rest)"
      and "addNamesToOps H sfx jc uk fn b tdb (Op k es # rest) vn st = Inr (ops', vn', st3)"
    then show "st3 = st \<and> stableOps ?l ops' = stableOps ?l (rerunOps H tdb (Op k es # rest))"
    proof (elim addNamesToOps_plainE[OF Plain.hyps])
      fix k' vn1 st' rest'
      assume h: "nameOp H jc uk fn b tdb k vn st = Inr (k', vn1, st')"
        "addNamesToOps H sfx jc uk fn b tdb rest vn1 st' = Inr (rest', vn', st3)"
        "ops' = Op k' es # rest'"
      note 1 = nameOp_stable[OF Plain.hyps p h(1)]
      have pr: "opsPopulated (variables st) rest"
        using p unfolding opsPopulated_plain[OF Plain.hyps] by simp
      have 2: "st3 = st \<and> stableOps ?l rest' = stableOps ?l (rerunOps H tdb rest)"
        using Plain.IH[OF h(1)] pr h(2) 1 by auto
      note 3 = rerunOps_plain[OF Plain.hyps, of H tdb es rest]
      show ?thesis
        using 1 2 3 h(3) stableOps_plain[of "rerunKind H tdb k" ?l es "rerunOps H tdb rest"]
          stableOps_plain[of k' ?l es rest'] by simp
    qed
  qed
qed

text \<open>
  Claim C1, amended. On a job in which every unit has a function name, every listener
  a handler name and every declared variable a name, a naming pass that returns leaves
  the variables and the counter as they were and leaves every unit's function name, every
  listener's binding name, every listener's handler name outside a host-binding unit in
  compatibility mode, and every property name that is not an animation trigger's as it
  was. The pass is not a no-op on the other names, which \<open>rerunUnit\<close>
  spells out: an animation trigger's name gets \<open>@\<close> in front once more, and a style or
  class property's name is put into normal form again, which changes it unless it has that
  form already; a class property's name that has been put into that form stays as it is. The
  comparison leaves aside the names of reads and the handler name of a listener in a
  host-binding unit in compatibility mode.
\<close>

theorem second_pass_stable:
  assumes "namesPopulated heap (root cpl)" and "phaseNaming H cpl heap = Inr (u', st')"
  shows "variables st' = heap \<and> index st' = 0 \<and>
         stableUnit (compatibility cpl = TemplateDefinitionBuilder
                     \<and> rootKind cpl = HostBindingCompilationUnit) u'
         = stableUnit (compatibility cpl = TemplateDefinitionBuilder
                       \<and> rootKind cpl = HostBindingCompilationUnit)
             (rerunUnit H (compatibility cpl = TemplateDefinitionBuilder) (root cpl)) \<and>
         rerunKind H tdb (rerunKind H tdb (ClassProp nm)) = rerunKind H tdb (ClassProp nm)"
proof -
  have 1: "variables st' = heap \<and> index st' = 0 \<and>
         stableUnit (compatibility cpl = TemplateDefinitionBuilder
                     \<and> rootKind cpl = HostBindingCompilationUnit) u'
         = stableUnit (compatibility cpl = TemplateDefinitionBuilder
                       \<and> rootKind cpl = HostBindingCompilationUnit)
             (rerunUnit H (compatibility cpl = TemplateDefinitionBuilder) (root cpl))"
    using naming_stable(1)[of "\<lparr>variables = heap, index = 0\<rparr>" "root cpl" H "fnSuffix cpl"
        "compatibility cpl" "rootKind cpl" "componentName cpl"
        "compatibility cpl = TemplateDefinitionBuilder"] assms
    by (auto simp: phaseNaming_def)
  have 2: "rerunKind H tdb (rerunKind H tdb (ClassProp nm)) = rerunKind H tdb (ClassProp nm)"
    by (simp add: cutImportant_idem)
  from 1 2 show ?thesis by (elim conjE) (intro conjI)
qed

theorem second_pass_stable_witness:
  "namesPopulated namedHeap (root (animationJob\<lparr>root := namedAnimationUnit\<rparr>))
   \<and> (\<exists>u' st'. phaseNaming plainHelpers (animationJob\<lparr>root := namedAnimationUnit\<rparr>) namedHeap
          = Inr (u', st')
        \<and> variables st' = namedHeap \<and> index st' = 0
        \<and> stableUnit False u'
          = CompilationUnit (Some ''Cmp_Template'')
              [Op (Property ''@@open'' True) [],
               Op (Listener ''click'' (Some ''Cmp_Template_button_click_1_listener'')
                     (Some 1) (Some ''button'') False None) [],
               Op (Variable 2 10) []])
   \<and> namesPopulated (variables freshState) (root importantJob)
   \<and> (\<exists>u' st'. phaseNaming plainHelpers importantJob (variables freshState) = Inr (u', st')
        \<and> variables st' = variables freshState \<and> index st' = 0
        \<and> stableUnit False u'
          = CompilationUnit (Some ''Cmp_Template'')
              [Op (StyleProp ''width'') [],
               Op (ClassProp ''big'') [],
               Op (Listener ''click'' (Some ''Cmp_Template_button_click_1_listener'')
                     (Some 1) (Some ''button'') False None) []])"
proof -
  have p: "namesPopulated namedHeap (root (animationJob\<lparr>root := namedAnimationUnit\<rparr>))"
    by (simp add: namedAnimationUnit_def namedHeap_def)
  obtain r where r: "phaseNaming plainHelpers (animationJob\<lparr>root := namedAnimationUnit\<rparr>) namedHeap = r"
    by simp
  then obtain u' st' where ok: "r = Inr (u', st')"
    by (auto simp: phaseNaming_def animationJob_def namedAnimationUnit_def namedHeap_def
      plainHelpers_def freshState_def getVariableName_def Let_def)
  from second_pass_stable[OF p r[unfolded ok]]
  have "variables st' = namedHeap \<and> index st' = 0
        \<and> stableUnit False u'
          = CompilationUnit (Some ''Cmp_Template'')
              [Op (Property ''@@open'' True) [],
               Op (Listener ''click'' (Some ''Cmp_Template_button_click_1_listener'')
                     (Some 1) (Some ''button'') False None) [],
               Op (Variable 2 10) []]"
    by (simp add: animationJob_def namedAnimationUnit_def)
  then have a: "\<exists>u' st'. phaseNaming plainHelpers (animationJob\<lparr>root := namedAnimationUnit\<rparr>) namedHeap
          = Inr (u', st')
        \<and> variables st' = namedHeap \<and> index st' = 0
        \<and> stableUnit False u'
          = CompilationUnit (Some ''Cmp_Template'')
              [Op (Property ''@@open'' True) [],
               Op (Listener ''click'' (Some ''Cmp_Template_button_click_1_listener'')
                     (Some 1) (Some ''button'') False None) [],
               Op (Variable 2 10) []]"
    using r[unfolded ok] by blast
  have q: "namesPopulated (variables freshState) (root importantJob)"
    by (simp add: importantJob_def)
  obtain r2 where r2: "phaseNaming plainHelpers importantJob (variables freshState) = r2"
    by simp
  then obtain u2 st2 where ok2: "r2 = Inr (u2, st2)"
    by (auto simp: phaseNaming_def importantJob_def plainHelpers_def)
  have w: "cutImportant True ''width!important'' = ''width''"
    "cutImportant True ''big!important'' = ''big''"
    by (simp_all add: cutImportant_def indexOf_def startsWith_def)
  from second_pass_stable[OF q r2[unfolded ok2]]
  have "variables st2 = variables freshState \<and> index st2 = 0
        \<and> stableUnit False u2
          = CompilationUnit (Some ''Cmp_Template'')
              [Op (StyleProp ''width'') [],
               Op (ClassProp ''big'') [],
               Op (Listener ''click'' (Some ''Cmp_Template_button_click_1_listener'')
                     (Some 1) (Some ''button'') False None) []]"
    by (simp add: importantJob_def plainHelpers_def startsWith_def w)
  then have b: "\<exists>u' st'. phaseNaming plainHelpers importantJob (variables freshState) = Inr (u', st')
        \<and> variables st' = variables freshState \<and> index st' = 0
        \<and> stableUnit False u'
          = CompilationUnit (Some ''Cmp_Template'')
              [Op (StyleProp ''width'') [],
               Op (ClassProp ''big'') [],
               Op (Listener ''click'' (Some ''Cmp_Template_button_click_1_listener'')
                     (Some 1) (Some ''button'') False None) []]"
    using r2[unfolded ok2] by blast
  from p a q b show ?thesis by (intro conjI)
qed

text \<open>
  The claim as stated fails. After one pass over a component with an animation trigger
  every name is populated, and a second pass turns the trigger's name \<open>@open\<close> into
  \<open>@@open\<close>. And on a job in compatibility mode in which every function, handler and
  variable name is populated, a pass cuts the names of a style and of a class property at
  \<open>!important\<close>.
\<close>

theorem second_pass_counterexample:
  "phaseNaming plainHelpers animationJob (variables freshState)
     = Inr (namedAnimationUnit, \<lparr>variables = namedHeap, index = 1\<rparr>)
   \<and> namesPopulated namedHeap namedAnimationUnit
   \<and> phaseNaming plainHelpers (animationJob\<lparr>root := namedAnimationUnit\<rparr>) namedHeap
     = Inr (CompilationUnit (Some ''Cmp_Template'')
              [Op (Property ''@@open'' True) [],
               Op (Listener ''click'' (Some ''Cmp_Template_button_click_1_listener'')
                     (Some 1) (Some ''button'') False None) [],
               Op (Variable 2 10) []], \<lparr>variables = namedHeap, index = 0\<rparr>)
   \<and> Property ''@@open'' True \<noteq> Property ''@open'' True
   \<and> namesPopulated (variables freshState) (root importantJob)
   \<and> phaseNaming plainHelpers importantJob (variables freshState)
     = Inr (CompilationUnit (Some ''Cmp_Template'')
              [Op (StyleProp ''width'') [],
               Op (ClassProp ''big'') [],
               Op (Listener ''click'' (Some ''Cmp_Template_button_click_1_listener'')
                     (Some 1) (Some ''button'') False None) []],
            \<lparr>variables = variables freshState, index = 0\<rparr>)
   \<and> StyleProp ''width'' \<noteq> StyleProp ''width!important''
   \<and> ClassProp ''big'' \<noteq> ClassProp ''big!important''"
proof -
  have 1: "phaseNaming plainHelpers animationJob (variables freshState)
     = Inr (namedAnimationUnit, \<lparr>variables = namedHeap, index = 1\<rparr>)
   \<and> namesPopulated namedHeap namedAnimationUnit
   \<and> phaseNaming plainHelpers (animationJob\<lparr>root := namedAnimationUnit\<rparr>) namedHeap
     = Inr (CompilationUnit (Some ''Cmp_Template'')
              [Op (Property ''@@open'' True) [],
               Op (Listener ''click'' (Some ''Cmp_Template_button_click_1_listener'')
                     (Some 1) (Some ''button'') False None) [],
               Op (Variable 2 10) []], \<lparr>variables = namedHeap, index = 0\<rparr>)
   \<and> Property ''@@open'' True \<noteq> Property ''@open'' True"
    by (simp add: phaseNaming_def animationJob_def namedAnimationUnit_def namedHeap_def
      plainHelpers_def freshState_def getVariableName_def freshName_def safeTagName_def
      string_of_nat.simps digit_char_def Let_def fun_eq_iff)
  have 2: "namesPopulated (variables freshState) (root importantJob)"
    by (simp add: importantJob_def)
  have s: "stripImportant ''width!important'' = ''width''"
    "stripImportant ''big!important'' = ''big''"
    by (simp_all add: stripImportant_def indexOf_def startsWith_def)
  have 3: "phaseNaming plainHelpers importantJob (variables freshState)
     = Inr (CompilationUnit (Some ''Cmp_Template'')
              [Op (StyleProp ''width'') [],
               Op (ClassProp ''big'') [],
               Op (Listener ''click'' (Some ''Cmp_Template_button_click_1_listener'')
                     (Some 1) (Some ''button'') False None) []],
            \<lparr>variables = variables freshState, index = 0\<rparr>)"
    by (simp add: phaseNaming_def importantJob_def plainHelpers_def normalizeStylePropName_def
        startsWith_def s)
  have 4: "StyleProp ''width'' \<noteq> StyleProp ''width!important''"
    "ClassProp ''big'' \<noteq> ClassProp ''big!important''" by simp_all
  from 1 2 3 4 show ?thesis by (intro conjI) simp_all
qed

subsection \<open>Listeners\<close>

lemma replaceFirst_absent: "a \<notin> set s \<Longrightarrow> replaceFirst a b s = s"
  by (induction s) auto

lemma replaceFirst_first: "a \<notin> set pre \<Longrightarrow> replaceFirst a b (pre @ a # post) = pre @ b # post"
  by (induction pre) auto

text \<open>
  Claim C4. A \<open>Listener\<close> operation whose handler name is unset, in a unit that is not
  the host-binding unit of a job in compatibility mode: when its slot is unassigned the
  loop body throws \<open>Expected a slot to be assigned\<close> and naming the unit fails; when
  naming the unit succeeds, the slot is assigned and the handler name is the sanitized
  join of the unit's function name, the tag with its first \<open>-\<close> replaced by \<open>_\<close>
  (\<open>host\<close> when the tag is \<open>null\<close> or empty), the binding name and the slot, ending in
  \<open>_listener\<close>. An animation listener puts \<open>animation\<close> and the animation phase
  (\<open>null\<close> when there is none) into the handler name and its binding name becomes
  \<open>@name.phase\<close>.
\<close>

theorem listener_naming:
  assumes "\<not> (jc = TemplateDefinitionBuilder \<and> uk = HostBindingCompilationUnit)"
    and "i < length (unitOps u)"
    and "opKind (unitOps u ! i) = Listener nm None slot tag isAnim phase"
  shows "(slot = None \<longrightarrow> (\<exists>e. addNamesToView H sfx jc uk u b st tdb = Inl e)
            \<and> nameOp H jc uk fn b tdb (Listener nm None slot tag isAnim phase) vn st
                = Inl (Error ''Expected a slot to be assigned''))
       \<and> (\<forall>u' st'. addNamesToView H sfx jc uk u b st tdb = Inr (u', st') \<longrightarrow>
            (\<exists>s f. slot = Some s \<and> fnName u' = Some f \<and>
               opKind (unitOps u' ! i) =
                 (if isAnim then
                    Listener (''@'' @ nm @ ''.'' @ (case phase of None \<Rightarrow> ''null'' | Some p \<Rightarrow> p))
                      (Some (sanitizeIdentifier H
                         (f @ ''_'' @
                          (case tag of
                             None \<Rightarrow> ''host''
                           | Some t \<Rightarrow> if t = [] then ''host''
                                       else replaceFirst (CHR ''-'') (CHR ''_'') t) @
                          ''_animation_'' @ nm @ ''_'' @
                          (case phase of None \<Rightarrow> ''null'' | Some p \<Rightarrow> p) @ ''_'' @
                          string_of_nat s @ ''_listener'')))
                      slot tag isAnim phase
                  else
                    Listener nm
                      (Some (sanitizeIdentifier H
                         (f @ ''_'' @
                          (case tag of
                             None \<Rightarrow> ''host''
                           | Some t \<Rightarrow> if t = [] then ''host''
                                       else replaceFirst (CHR ''-'') (CHR ''_'') t) @
                          ''_'' @ nm @ ''_'' @ string_of_nat s @ ''_listener'')))
                      slot tag isAnim phase)))
       \<and> (CHR ''-'' \<notin> set pre \<longrightarrow>
            replaceFirst (CHR ''-'') (CHR ''_'') (pre @ CHR ''-'' # post) = pre @ CHR ''_'' # post
            \<and> replaceFirst (CHR ''-'') (CHR ''_'') pre = pre)"
proof (intro conjI impI allI)
  assume s: "slot = None"
  have nt: "\<not> isTemplate (opKind (unitOps u ! i))" using assms(3) by (simp add: isTemplate_def)
  show "\<exists>e. addNamesToView H sfx jc uk u b st tdb = Inl e"
    using assms(1) s by (intro addNamesToView_error[OF assms(2) nt]) (auto simp: assms(3))
  show "nameOp H jc uk fn b tdb (Listener nm None slot tag isAnim phase) vn st
                = Inl (Error ''Expected a slot to be assigned'')"
    using assms(1) s by auto
next
  fix u' st'
  assume r: "addNamesToView H sfx jc uk u b st tdb = Inr (u', st')"
  have nt: "\<not> isTemplate (opKind (unitOps u ! i))" using assms(3) by (simp add: isTemplate_def)
  from addNamesToView_nth[OF r assms(2) nt] obtain f vn1 st1 vn2 st2 where
    f: "fnName u' = Some f"
    and n: "nameOp H jc uk f b tdb (Listener nm None slot tag isAnim phase) vn1 st1
              = Inr (opKind (unitOps u' ! i), vn2, st2)"
    unfolding assms(3) by blast
  from n assms(1) f show "\<exists>s f. slot = Some s \<and> fnName u' = Some f \<and>
               opKind (unitOps u' ! i) =
                 (if isAnim then
                    Listener (''@'' @ nm @ ''.'' @ (case phase of None \<Rightarrow> ''null'' | Some p \<Rightarrow> p))
                      (Some (sanitizeIdentifier H
                         (f @ ''_'' @
                          (case tag of
                             None \<Rightarrow> ''host''
                           | Some t \<Rightarrow> if t = [] then ''host''
                                       else replaceFirst (CHR ''-'') (CHR ''_'') t) @
                          ''_animation_'' @ nm @ ''_'' @
                          (case phase of None \<Rightarrow> ''null'' | Some p \<Rightarrow> p) @ ''_'' @
                          string_of_nat s @ ''_listener'')))
                      slot tag isAnim phase
                  else
                    Listener nm
                      (Some (sanitizeIdentifier H
                         (f @ ''_'' @
                          (case tag of
                             None \<Rightarrow> ''host''
                           | Some t \<Rightarrow> if t = [] then ''host''
                                       else replaceFirst (CHR ''-'') (CHR ''_'') t) @
                          ''_'' @ nm @ ''_'' @ string_of_nat s @ ''_listener'')))
                      slot tag isAnim phase)"
    by (cases slot) (auto simp: safeTagName_def str_or_null_def split: if_splits)
next
  assume "CHR ''-'' \<notin> set pre"
  then show "replaceFirst (CHR ''-'') (CHR ''_'') (pre @ CHR ''-'' # post) = pre @ CHR ''_'' # post"
    by (rule replaceFirst_first)
next
  assume "CHR ''-'' \<notin> set pre"
  then show "replaceFirst (CHR ''-'') (CHR ''_'') pre = pre" by (rule replaceFirst_absent)
qed

theorem listener_naming_witness:
  "\<not> (Normal = TemplateDefinitionBuilder \<and> ViewCompilationUnit = HostBindingCompilationUnit)
   \<and> addNamesToView plainHelpers ''Template'' Normal ViewCompilationUnit
        (CompilationUnit None [Op (Listener ''click'' None (Some 2) (Some ''my-button'') False None) []])
        ''MyCmp'' freshState False
      = Inr (CompilationUnit (Some ''MyCmp_Template'')
               [Op (Listener ''click'' (Some ''MyCmp_Template_my_button_click_2_listener'')
                      (Some 2) (Some ''my-button'') False None) []], freshState)
   \<and> addNamesToView plainHelpers ''HostBindings'' Normal HostBindingCompilationUnit
        (CompilationUnit None [Op (Listener ''click'' None (Some 0) None False None) []])
        ''MyCmp'' freshState False
      = Inr (CompilationUnit (Some ''MyCmp_HostBindings'')
               [Op (Listener ''click'' (Some ''MyCmp_HostBindings_host_click_0_listener'')
                      (Some 0) None False None) []], freshState)
   \<and> addNamesToView plainHelpers ''Template'' TemplateDefinitionBuilder ViewCompilationUnit
        (CompilationUnit None
           [Op OtherOp [], Op (Listener ''fade'' None (Some 3) (Some ''my-fancy-div'') True (Some ''start'')) []])
        ''MyCmp'' freshState True
      = Inr (CompilationUnit (Some ''MyCmp_Template'')
               [Op OtherOp [],
                Op (Listener ''@fade.start''
                      (Some ''MyCmp_Template_my_fancy-div_animation_fade_start_3_listener'')
                      (Some 3) (Some ''my-fancy-div'') True (Some ''start'')) []], freshState)
   \<and> addNamesToView plainHelpers ''Template'' Normal ViewCompilationUnit
        (CompilationUnit (Some ''f'') [Op (Listener ''fade'' None (Some 10) (Some []) True None) []])
        ''MyCmp'' freshState False
      = Inr (CompilationUnit (Some ''f'')
               [Op (Listener ''@fade.null'' (Some ''f_host_animation_fade_null_10_listener'')
                      (Some 10) (Some []) True None) []], freshState)
   \<and> (\<exists>e. addNamesToView plainHelpers ''Template'' Normal ViewCompilationUnit
        (CompilationUnit None [Op (Listener ''click'' None None (Some ''my-button'') False None) []])
        ''MyCmp'' freshState False = Inl e)"
proof -
  have n: "string_of_nat 0 = ''0''" "string_of_nat 2 = ''2''" "string_of_nat 3 = ''3''"
    "string_of_nat 10 = ''10''"
    by (simp_all add: string_of_nat.simps digit_char_def)
  have 0: "\<not> (Normal = TemplateDefinitionBuilder \<and> ViewCompilationUnit = HostBindingCompilationUnit)"
    by simp
  have 1: "addNamesToView plainHelpers ''Template'' Normal ViewCompilationUnit
        (CompilationUnit None [Op (Listener ''click'' None (Some 2) (Some ''my-button'') False None) []])
        ''MyCmp'' freshState False
      = Inr (CompilationUnit (Some ''MyCmp_Template'')
               [Op (Listener ''click'' (Some ''MyCmp_Template_my_button_click_2_listener'')
                      (Some 2) (Some ''my-button'') False None) []], freshState)"
    using listener_naming[of Normal ViewCompilationUnit 0
       "CompilationUnit None [Op (Listener ''click'' None (Some 2) (Some ''my-button'') False None) []]"
       "''click''" "Some 2" "Some ''my-button''" False None plainHelpers "''Template''" "''MyCmp''"
       freshState False]
    by (simp add: plainHelpers_def n safeTagName_def)
  have 2: "addNamesToView plainHelpers ''HostBindings'' Normal HostBindingCompilationUnit
        (CompilationUnit None [Op (Listener ''click'' None (Some 0) None False None) []])
        ''MyCmp'' freshState False
      = Inr (CompilationUnit (Some ''MyCmp_HostBindings'')
               [Op (Listener ''click'' (Some ''MyCmp_HostBindings_host_click_0_listener'')
                      (Some 0) None False None) []], freshState)"
    using listener_naming[of Normal HostBindingCompilationUnit 0
       "CompilationUnit None [Op (Listener ''click'' None (Some 0) None False None) []]"
       "''click''" "Some 0" None False None plainHelpers "''HostBindings''" "''MyCmp''"
       freshState False]
    by (simp add: plainHelpers_def n safeTagName_def)
  have 3: "addNamesToView plainHelpers ''Template'' TemplateDefinitionBuilder ViewCompilationUnit
        (CompilationUnit None
           [Op OtherOp [], Op (Listener ''fade'' None (Some 3) (Some ''my-fancy-div'') True (Some ''start'')) []])
        ''MyCmp'' freshState True
      = Inr (CompilationUnit (Some ''MyCmp_Template'')
               [Op OtherOp [],
                Op (Listener ''@fade.start''
                      (Some ''MyCmp_Template_my_fancy-div_animation_fade_start_3_listener'')
                      (Some 3) (Some ''my-fancy-div'') True (Some ''start'')) []], freshState)"
    using listener_naming[of TemplateDefinitionBuilder ViewCompilationUnit 1
       "CompilationUnit None
           [Op OtherOp [], Op (Listener ''fade'' None (Some 3) (Some ''my-fancy-div'') True (Some ''start'')) []]"
       "''fade''" "Some 3" "Some ''my-fancy-div''" True "Some ''start''" plainHelpers "''Template''"
       "''MyCmp''" freshState True]
    by (simp add: plainHelpers_def n safeTagName_def str_or_null_def)
  have 4: "addNamesToView plainHelpers ''Template'' Normal ViewCompilationUnit
        (CompilationUnit (Some ''f'') [Op (Listener ''fade'' None (Some 10) (Some []) True None) []])
        ''MyCmp'' freshState False
      = Inr (CompilationUnit (Some ''f'')
               [Op (Listener ''@fade.null'' (Some ''f_host_animation_fade_null_10_listener'')
                      (Some 10) (Some []) True None) []], freshState)"
    using listener_naming[of Normal ViewCompilationUnit 0
       "CompilationUnit (Some ''f'') [Op (Listener ''fade'' None (Some 10) (Some []) True None) []]"
       "''fade''" "Some 10" "Some []" True None plainHelpers "''Template''"
       "''MyCmp''" freshState False]
    by (simp add: plainHelpers_def n safeTagName_def str_or_null_def)
  have 5: "\<exists>e. addNamesToView plainHelpers ''Template'' Normal ViewCompilationUnit
        (CompilationUnit None [Op (Listener ''click'' None None (Some ''my-button'') False None) []])
        ''MyCmp'' freshState False = Inl e"
    using listener_naming[of Normal ViewCompilationUnit 0
       "CompilationUnit None [Op (Listener ''click'' None None (Some ''my-button'') False None) []]"
       "''click''" None "Some ''my-button''" False None plainHelpers "''Template''" "''MyCmp''"
       freshState False]
    by simp
  from 0 1 2 3 4 5 show ?thesis by (intro conjI)
qed

subsection \<open>Style and class properties\<close>

text \<open>
  Claim C5. When naming a unit succeeds, a \<open>StyleProp\<close> operation's name is
  hyphenated unless it starts with \<open>--\<close>, and in compatibility mode \<open>stripImportant\<close>
  is applied to the result; a \<open>ClassProp\<close> operation's name goes through
  \<open>stripImportant\<close> in compatibility mode and is unchanged otherwise.
  \<open>stripImportant\<close> removes a trailing \<open>!important\<close> and leaves a name without the
  marker as it is.
\<close>

theorem style_class_prop_naming:
  assumes "addNamesToView H sfx jc uk u b st tdb = Inr (u', st')"
    and "i < length (unitOps u)"
  shows "(opKind (unitOps u ! i) = StyleProp nm \<longrightarrow>
            opKind (unitOps u' ! i) =
              StyleProp ((if tdb then stripImportant else (\<lambda>s. s))
                           (if startsWith nm ''--'' then nm else hyphenate H nm)))
       \<and> (opKind (unitOps u ! i) = ClassProp nm \<longrightarrow>
            opKind (unitOps u' ! i) = ClassProp (if tdb then stripImportant nm else nm))
       \<and> (indexOf pre ''!important'' = None \<longrightarrow>
            stripImportant (pre @ ''!important'') = pre \<and> stripImportant pre = pre)"
proof (intro conjI impI)
  assume k: "opKind (unitOps u ! i) = StyleProp nm"
  then have nt: "\<not> isTemplate (opKind (unitOps u ! i))" by (simp add: isTemplate_def)
  from addNamesToView_nth[OF assms(1,2) nt] show "opKind (unitOps u' ! i) =
              StyleProp ((if tdb then stripImportant else (\<lambda>s. s))
                           (if startsWith nm ''--'' then nm else hyphenate H nm))"
    unfolding k by (auto simp: normalizeStylePropName_def Let_def)
next
  assume k: "opKind (unitOps u ! i) = ClassProp nm"
  then have nt: "\<not> isTemplate (opKind (unitOps u ! i))" by (simp add: isTemplate_def)
  from addNamesToView_nth[OF assms(1,2) nt]
  show "opKind (unitOps u' ! i) = ClassProp (if tdb then stripImportant nm else nm)"
    unfolding k by auto
next
  assume "indexOf pre ''!important'' = None"
  then show "stripImportant (pre @ ''!important'') = pre"
    using stripImportant_suffix[of pre "[]"] by simp
next
  assume "indexOf pre ''!important'' = None"
  then show "stripImportant pre = pre" by (rule stripImportant_none)
qed

theorem style_class_prop_naming_witness:
  "addNamesToView plainHelpers ''Template'' TemplateDefinitionBuilder ViewCompilationUnit
     (CompilationUnit (Some ''f'')
        [Op (StyleProp ''--gap!important'') [], Op (ClassProp ''on!important'') []])
     ''Cmp'' freshState True
   = Inr (CompilationUnit (Some ''f'') [Op (StyleProp ''--gap'') [], Op (ClassProp ''on'') []],
          freshState)
   \<and> opKind (unitOps (CompilationUnit (Some ''f'')
         [Op (StyleProp ''--gap'') [], Op (ClassProp ''on'') []]) ! 1) = ClassProp ''on''
   \<and> indexOf ''on'' ''!important'' = None \<and> stripImportant ''on!important'' = ''on''"
  using style_class_prop_naming[where H = plainHelpers and sfx = "''Template''"
      and jc = TemplateDefinitionBuilder and uk = ViewCompilationUnit
      and u = "CompilationUnit (Some ''f'')
        [Op (StyleProp ''--gap!important'') [], Op (ClassProp ''on!important'') []]"
      and b = "''Cmp''" and st = freshState and tdb = True
      and u' = "CompilationUnit (Some ''f'') [Op (StyleProp ''--gap'') [], Op (ClassProp ''on'') []]"
      and st' = freshState and i = 1 and nm = "''on!important''" and pre = "''on''"]
  by (simp add: plainHelpers_def normalizeStylePropName_def stripImportant_def indexOf_def
        startsWith_def)

section \<open>Properties of the callback scheduler\<close>

lemma firing_initial: "firingInv r initialScheduler"
  by (simp add: firingInv_def initialScheduler_def pendingOf_def)

lemma pendingOf_schedule:
  "pendingOf (schedule r st) c = pendingOf st c + (if c = nextCall st then registered r else 0)"
  by (simp add: pendingOf_def schedule_def Let_def registered_def)

lemma firing_schedule:
  assumes "firingInv r st"
  shows "firingInv r (schedule r st)"
proof -
  have e: "executed (schedule r st) = executed st"
    and n: "nextCall (schedule r st) = Suc (nextCall st)"
    and x: "\<And>c. executeCallback (schedule r st) c = (c = nextCall st \<or> executeCallback st c)"
    by (simp_all add: schedule_def Let_def)
  have r0: "0 < registered r" by (simp add: registered_def)
  show ?thesis
    unfolding firingInv_def e n x pendingOf_schedule
  proof (intro conjI allI impI)
    show "distinct (executed st)" using assms by (simp add: firingInv_def)
  next
    fix c assume "Suc (nextCall st) \<le> c"
    then have "nextCall st \<le> c" "c \<noteq> nextCall st" by simp_all
    then show "c \<notin> set (executed st)" "\<not> (c = nextCall st \<or> executeCallback st c)"
      "pendingOf st c + (if c = nextCall st then registered r else 0) = 0"
      using assms by (simp_all add: firingInv_def)
  next
    fix c assume c: "c < Suc (nextCall st)"
    show "pendingOf st c + (if c = nextCall st then registered r else 0) \<le> registered r"
      using assms c by (cases "c = nextCall st") (simp_all add: firingInv_def)
    show "(c = nextCall st \<or> executeCallback st c) =
          (pendingOf st c + (if c = nextCall st then registered r else 0) = registered r)"
      using assms c by (cases "c = nextCall st") (simp_all add: firingInv_def)
    show "(c \<in> set (executed st)) =
          (pendingOf st c + (if c = nextCall st then registered r else 0) < registered r)"
      using assms c by (cases "c = nextCall st") (simp_all add: firingInv_def)
  qed
qed

lemma filter_remove_nth:
  "i < length xs \<Longrightarrow>
   length (filter P (take i xs @ drop (Suc i) xs)) + (if P (xs ! i) then 1 else 0)
   = length (filter P xs)"
proof -
  assume i: "i < length xs"
  have "xs = take i xs @ xs ! i # drop (Suc i) xs" using i by (rule id_take_nth_drop)
  then have "filter P xs = filter P (take i xs) @ filter P [xs ! i] @ filter P (drop (Suc i) xs)"
    by (metis append_Cons append_Nil filter_append)
  then show ?thesis by simp
qed

lemma pendingOf_fired:
  assumes "i < length (pending st)"
  shows "pendingOf (st\<lparr>pending := take i (pending st) @ drop (Suc i) (pending st)\<rparr>) c
         + (if fst (pending st ! i) = c then 1 else 0) = pendingOf st c"
  using filter_remove_nth[OF assms, of "\<lambda>p. fst p = c"] by (simp add: pendingOf_def)

lemma fire_executed:
  assumes "firingInv r st" and "i < length (pending st)"
  shows "executed (schedulerStep r (Fire i) st)
         = executed st @ (if pendingOf st (fst (pending st ! i)) = registered r
                          then [fst (pending st ! i)] else [])"
proof -
  let ?c = "fst (pending st ! i)"
  have p: "0 < pendingOf st ?c" using pendingOf_fired[OF assms(2), of ?c] by simp
  have c: "?c < nextCall st"
  proof (rule ccontr)
    assume "\<not> ?c < nextCall st"
    then have "pendingOf st ?c = 0" using assms(1) by (simp add: firingInv_def)
    then show False using p by simp
  qed
  have "executeCallback st ?c \<longleftrightarrow> pendingOf st ?c = registered r"
    using assms(1) c by (simp add: firingInv_def)
  then show ?thesis using assms(2) by (simp add: runTask_def)
qed

lemma firing_fire:
  assumes "firingInv r st"
  shows "firingInv r (schedulerStep r (Fire i) st)"
proof (cases "i < length (pending st)")
  case False
  then show ?thesis using assms by simp
next
  case True
  let ?c = "fst (pending st ! i)"
  let ?st = "schedulerStep r (Fire i) st"
  note ex = fire_executed[OF assms True]
  have p: "0 < pendingOf st ?c" using pendingOf_fired[OF True, of ?c] by simp
  have c: "?c < nextCall st"
  proof (rule ccontr)
    assume "\<not> ?c < nextCall st"
    then have "pendingOf st ?c = 0" using assms by (simp add: firingInv_def)
    then show False using p by simp
  qed
  have flag: "executeCallback st ?c \<longleftrightarrow> pendingOf st ?c = registered r"
    using assms c by (simp add: firingInv_def)
  have n: "nextCall ?st = nextCall st" using True by (simp add: runTask_def)
  have x: "\<And>d. executeCallback ?st d = (d \<noteq> ?c \<and> executeCallback st d)"
    using True by (auto simp: runTask_def)
  have ps: "pending ?st = take i (pending st) @ drop (Suc i) (pending st)"
    using True by (simp add: runTask_def)
  have "\<And>d. pendingOf ?st d
        = pendingOf (st\<lparr>pending := take i (pending st) @ drop (Suc i) (pending st)\<rparr>) d"
    unfolding pendingOf_def ps by simp
  then have q: "\<And>d. pendingOf ?st d + (if ?c = d then 1 else 0) = pendingOf st d"
    using pendingOf_fired[OF True] by simp
  have inv: "distinct (executed st)"
    "\<And>d. nextCall st \<le> d \<Longrightarrow> d \<notin> set (executed st) \<and> \<not> executeCallback st d \<and> pendingOf st d = 0"
    "\<And>d. d < nextCall st \<Longrightarrow> pendingOf st d \<le> registered r \<and>
          (executeCallback st d \<longleftrightarrow> pendingOf st d = registered r) \<and>
          (d \<in> set (executed st) \<longleftrightarrow> pendingOf st d < registered r)"
    using assms by (simp_all add: firingInv_def)
  show ?thesis
    unfolding firingInv_def n x
  proof (intro conjI allI impI)
    show "distinct (executed ?st)"
      unfolding ex using inv(1) inv(3)[OF c] by auto
  next
    fix d assume d: "nextCall st \<le> d"
    then have dc: "d \<noteq> ?c" using c by auto
    show "d \<notin> set (executed ?st)" unfolding ex using inv(2)[OF d] dc by auto
    show "\<not> (d \<noteq> ?c \<and> executeCallback st d)" using inv(2)[OF d] by simp
    show "pendingOf ?st d = 0" using q[of d] inv(2)[OF d] by simp
  next
    fix d assume d: "d < nextCall st"
    show "pendingOf ?st d \<le> registered r" using q[of d] inv(3)[OF d] by simp
    show "(d \<noteq> ?c \<and> executeCallback st d) = (pendingOf ?st d = registered r)"
      using q[of d] inv(3)[OF d] by (cases "?c = d") auto
    show "(d \<in> set (executed ?st)) = (pendingOf ?st d < registered r)"
      unfolding ex using q[of d] inv(3)[OF d] p by (cases "?c = d") auto
  qed
qed

lemma firing_step: "firingInv r st \<Longrightarrow> firingInv r (schedulerStep r e st)"
  by (cases e) (simp_all add: firing_schedule firing_fire del: schedulerStep.simps(2))

lemma firing_run: "firingInv r st \<Longrightarrow> firingInv r (runScheduler r es st)"
  by (induction es arbitrary: st) (simp_all add: firing_step del: schedulerStep.simps)

lemma count_list_distinct: "distinct xs \<Longrightarrow> count_list xs c = (if c \<in> set xs then 1 else 0)"
  by (induction xs) (auto simp: count_list_0_iff)

text \<open>
  Claim C10. Whatever the environment does, in whatever order the closures fire, the callback
  of each call is run at most once; it has run exactly once as soon as one of the closures of
  the call has fired, and not before. In every state the environment can reach, a closure that
  fires while both closures of its call (the one closure, without \<open>requestAnimationFrame\<close>)
  are still registered runs the callback, and a closure that fires later runs nothing. A call
  registers a timeout and, when \<open>requestAnimationFrame\<close> is available, an animation frame.
\<close>

theorem callback_at_most_once:
  "count_list (executed (runScheduler hasRaf es initialScheduler)) c \<le> 1
   \<and> count_list (executed (runScheduler hasRaf es initialScheduler)) c
       = (if c < nextCall (runScheduler hasRaf es initialScheduler)
             \<and> pendingOf (runScheduler hasRaf es initialScheduler) c < (if hasRaf then 2 else 1)
          then 1 else 0)
   \<and> (\<forall>i < length (pending (runScheduler hasRaf es initialScheduler)).
         executed (schedulerStep hasRaf (Fire i) (runScheduler hasRaf es initialScheduler))
         = executed (runScheduler hasRaf es initialScheduler) @
           (if pendingOf (runScheduler hasRaf es initialScheduler)
                 (fst (pending (runScheduler hasRaf es initialScheduler) ! i))
               = (if hasRaf then 2 else 1)
            then [fst (pending (runScheduler hasRaf es initialScheduler) ! i)] else []))
   \<and> pending (schedulerStep hasRaf Schedule (runScheduler hasRaf es initialScheduler))
       = pending (runScheduler hasRaf es initialScheduler)
         @ [(nextCall (runScheduler hasRaf es initialScheduler), SetTimeout)]
         @ (if hasRaf then [(nextCall (runScheduler hasRaf es initialScheduler), RequestAnimationFrame)]
            else [])
   \<and> pendingOf (runScheduler hasRaf es initialScheduler)
         (nextCall (runScheduler hasRaf es initialScheduler)) = 0"
proof -
  let ?st = "runScheduler hasRaf es initialScheduler"
  have inv: "firingInv hasRaf ?st" using firing_run[OF firing_initial] .
  have d: "distinct (executed ?st)" using inv by (simp add: firingInv_def)
  have m: "c \<in> set (executed ?st) \<longleftrightarrow> c < nextCall ?st \<and> pendingOf ?st c < registered hasRaf"
  proof (cases "c < nextCall ?st")
    case True
    then show ?thesis using inv by (simp add: firingInv_def)
  next
    case False
    then have "nextCall ?st \<le> c" by simp
    then have "c \<notin> set (executed ?st)" using inv by (simp add: firingInv_def)
    then show ?thesis using False by simp
  qed
  have 1: "count_list (executed ?st) c \<le> 1" using count_list_distinct[OF d, of c] by simp
  have 2: "count_list (executed ?st) c
       = (if c < nextCall ?st \<and> pendingOf ?st c < (if hasRaf then 2 else 1) then 1 else 0)"
    using count_list_distinct[OF d, of c] m by (simp add: registered_def)
  have 3: "\<forall>i < length (pending ?st).
         executed (schedulerStep hasRaf (Fire i) ?st)
         = executed ?st @
           (if pendingOf ?st (fst (pending ?st ! i)) = (if hasRaf then 2 else 1)
            then [fst (pending ?st ! i)] else [])"
  proof (intro allI impI)
    fix i assume "i < length (pending ?st)"
    from fire_executed[OF inv this] show "executed (schedulerStep hasRaf (Fire i) ?st)
         = executed ?st @
           (if pendingOf ?st (fst (pending ?st ! i)) = (if hasRaf then 2 else 1)
            then [fst (pending ?st ! i)] else [])"
      by (simp only: registered_def)
  qed
  have 4: "pending (schedulerStep hasRaf Schedule ?st)
       = pending ?st @ [(nextCall ?st, SetTimeout)]
         @ (if hasRaf then [(nextCall ?st, RequestAnimationFrame)] else [])"
    by (simp add: schedule_def Let_def)
  have 5: "pendingOf ?st (nextCall ?st) = 0" using inv by (simp add: firingInv_def)
  from 1 2 3 4 5 show ?thesis by (intro conjI)
qed

theorem callback_at_most_once_witness:
  "executed (runScheduler True [Schedule] initialScheduler) = []
   \<and> pending (runScheduler True [Schedule] initialScheduler)
       = [(0, SetTimeout), (0, RequestAnimationFrame)]
   \<and> (1::nat) < length (pending (runScheduler True [Schedule] initialScheduler))
   \<and> executed (schedulerStep True (Fire 1) (runScheduler True [Schedule] initialScheduler)) = [0]
   \<and> executed (runScheduler True [Schedule, Fire 1] initialScheduler) = [0]
   \<and> executed (runScheduler True [Schedule, Fire 1, Fire 0] initialScheduler) = [0]
   \<and> executed (runScheduler True [Schedule, Fire 0] initialScheduler) = [0]
   \<and> executed (runScheduler True [Schedule, Fire 0, Fire 0] initialScheduler) = [0]
   \<and> executed (runScheduler False [Schedule, Fire 0] initialScheduler) = [0]
   \<and> executed (runScheduler True [Schedule, Schedule, Fire 3, Fire 0, Fire 0, Fire 0] initialScheduler)
       = [1, 0]
   \<and> count_list (executed (runScheduler True [Schedule, Fire 1, Fire 0] initialScheduler)) 0 = 1"
proof -
  have p: "pending (runScheduler True [Schedule] initialScheduler)
       = [(0, SetTimeout), (0, RequestAnimationFrame)]"
    by (simp add: initialScheduler_def schedule_def Let_def)
  have x: "executed (runScheduler True [Schedule] initialScheduler) = []"
    by (simp add: initialScheduler_def schedule_def Let_def)
  have l: "(1::nat) < length (pending (runScheduler True [Schedule] initialScheduler))"
    unfolding p by simp
  have q: "pendingOf (runScheduler True [Schedule] initialScheduler) 0 = 2"
    unfolding pendingOf_def p by simp
  note t = callback_at_most_once[of True "[Schedule]" 0]
  from t have "\<forall>i < length (pending (runScheduler True [Schedule] initialScheduler)).
         executed (schedulerStep True (Fire i) (runScheduler True [Schedule] initialScheduler))
         = executed (runScheduler True [Schedule] initialScheduler) @
           (if pendingOf (runScheduler True [Schedule] initialScheduler)
                 (fst (pending (runScheduler True [Schedule] initialScheduler) ! i))
               = (if True then 2 else 1)
            then [fst (pending (runScheduler True [Schedule] initialScheduler) ! i)] else [])"
    by (elim conjE)
  from this[rule_format, OF l]
  have f: "executed (schedulerStep True (Fire 1) (runScheduler True [Schedule] initialScheduler)) = [0]"
    unfolding x unfolding p using q by simp
  have r1: "executed (runScheduler True [Schedule, Fire 1] initialScheduler) = [0]"
    by (simp add: initialScheduler_def schedule_def runTask_def Let_def)
  have r2: "executed (runScheduler True [Schedule, Fire 1, Fire 0] initialScheduler) = [0]"
    by (simp add: initialScheduler_def schedule_def runTask_def Let_def)
  have r3: "executed (runScheduler True [Schedule, Fire 0] initialScheduler) = [0]"
    by (simp add: initialScheduler_def schedule_def runTask_def Let_def)
  have r4: "executed (runScheduler True [Schedule, Fire 0, Fire 0] initialScheduler) = [0]"
    by (simp add: initialScheduler_def schedule_def runTask_def Let_def)
  have r5: "executed (runScheduler False [Schedule, Fire 0] initialScheduler) = [0]"
    by (simp add: initialScheduler_def schedule_def runTask_def Let_def)
  have r6: "executed (runScheduler True [Schedule, Schedule, Fire 3, Fire 0, Fire 0, Fire 0] initialScheduler)
       = [1, 0]"
    by (simp add: initialScheduler_def schedule_def runTask_def Let_def)
  have c: "count_list (executed (runScheduler True [Schedule, Fire 1, Fire 0] initialScheduler)) 0 = 1"
    unfolding r2 by simp
  from x p l f r1 r2 r3 r4 r5 r6 c show ?thesis by (intro conjI)
qed

section \<open>Properties of the block parser\<close>

subsection \<open>Time values\<close>












subsection \<open>Loops\<close>










subsection \<open>Switch blocks\<close>

lemma validateSwitchCases_Cons:
  \<open>validateSwitchCases (Block nm ps # blocks) h =
     (if nm = ''case'' then
        (if length ps \<noteq> 1 then [''Case block must have exactly one parameter''] else [])
          @ validateSwitchCases blocks h
      else if nm = ''default'' then
        (if h then [''Switch block can only have one "default" block'']
         else if ps \<noteq> [] then [''Default block cannot have parameters'']
         else [])
          @ validateSwitchCases blocks True
      else [''Switch block can only contain "case" and "default" blocks'']
          @ validateSwitchCases blocks h)\<close>
  by (rule validateSwitchCases.simps)

lemma default_not_case: "''default'' \<noteq> ''case''"
  by simp

lemma validateSwitchCases_seen:
  \<open>Block ''default'' ps \<in> set blocks \<Longrightarrow>
   ''Switch block can only have one "default" block'' \<in> set (validateSwitchCases blocks True)\<close>
proof (induction blocks)
  case Nil
  then show ?case by simp
next
  case (Cons b blocks)
  obtain nm qs where b: "b = Block nm qs" by (cases b)
  show ?case
  proof (cases "nm = ''default''")
    case True
    show ?thesis unfolding b validateSwitchCases_Cons True using default_not_case
      by (simp del: validateSwitchCases.simps)
  next
    case False
    then have "Block ''default'' ps \<in> set blocks" using Cons.prems b by auto
    then have i: \<open>''Switch block can only have one "default" block''
        \<in> set (validateSwitchCases blocks True)\<close> by (rule Cons.IH)
    show ?thesis unfolding b validateSwitchCases_Cons using False i
      by (simp del: validateSwitchCases.simps)
  qed
qed

lemma validateSwitchCases_two:
  \<open>2 \<le> length (filter (\<lambda>b. b = Block ''default'' []) blocks) \<Longrightarrow>
   ''Switch block can only have one "default" block'' \<in> set (validateSwitchCases blocks h)\<close>
proof (induction blocks arbitrary: h)
  case Nil
  then show ?case by simp
next
  case (Cons b blocks)
  obtain nm qs where b: "b = Block nm qs" by (cases b)
  show ?case
  proof (cases "b = Block ''default'' []")
    case True
    then have "filter (\<lambda>b. b = Block ''default'' []) blocks \<noteq> []"
      using Cons.prems by auto
    then have "Block ''default'' [] \<in> set blocks"
      by (simp add: filter_empty_conv)
    from validateSwitchCases_seen[OF this] have i: \<open>''Switch block can only have one "default" block''
        \<in> set (validateSwitchCases blocks True)\<close> .
    have nm: "nm = ''default''" using True b by simp
    show ?thesis unfolding b validateSwitchCases_Cons nm using default_not_case i
      by (simp del: validateSwitchCases.simps)
  next
    case False
    then have "2 \<le> length (filter (\<lambda>b. b = Block ''default'' []) blocks)"
      using Cons.prems by simp
    then have i: \<open>\<And>h. ''Switch block can only have one "default" block''
        \<in> set (validateSwitchCases blocks h)\<close> by (rule Cons.IH)
    show ?thesis unfolding b validateSwitchCases_Cons using i[of h] i[of True]
      by (simp del: validateSwitchCases.simps)
  qed
qed

lemma validateSwitchCases_ok:
  "list_all wellFormedCase blocks \<Longrightarrow>
   length (filter isDefaultBlock blocks) \<le> (if h then 0 else 1) \<Longrightarrow>
   validateSwitchCases blocks h = []"
proof (induction blocks arbitrary: h)
  case Nil
  then show ?case by simp
next
  case (Cons b blocks)
  obtain nm qs where b: "b = Block nm qs" by (cases b)
  have w: "nm = ''case'' \<and> length qs = 1 \<or> nm = ''default'' \<and> qs = []"
    and r: "list_all wellFormedCase blocks"
    using Cons.prems(1) unfolding b by simp_all
  show ?case
  proof (cases "nm = ''case''")
    case True
    then have "length (filter isDefaultBlock blocks) \<le> (if h then 0 else 1)"
      using Cons.prems(2) unfolding b by simp
    from Cons.IH[OF r this] show ?thesis
      unfolding b validateSwitchCases_Cons using True w by (simp del: validateSwitchCases.simps)
  next
    case False
    then have d: "nm = ''default''" "qs = []" using w by simp_all
    have nh: "\<not> h" using Cons.prems(2) unfolding b d by (cases h) simp_all
    have "length (filter isDefaultBlock blocks) \<le> (if True then 0 else 1)"
      using Cons.prems(2) nh unfolding b d by simp
    from Cons.IH[OF r this] show ?thesis
      unfolding b validateSwitchCases_Cons d using nh default_not_case
      by (simp del: validateSwitchCases.simps)
  qed
qed

lemma serviceErrors_accepts:
  "list_all (accepts svc) es \<Longrightarrow> serviceErrors svc es = []"
  by (induction es) (auto simp: serviceErrors_def split: sum.splits)

lemma caseExpressions_eq:
  "concat (map (\<lambda>b. case b of Block nm ps \<Rightarrow> if nm = ''case'' then [hd ps] else []) blocks)
   = switchExpressions blocks"
proof (induction blocks)
  case Nil
  then show ?case by simp
next
  case (Cons b blocks)
  then show ?case by (cases b) simp
qed

text \<open>
  Claim C7. A switch body with two default blocks fails with the error that a switch block can
  only have one default block; a well-formed body with exactly one default block, wherever it
  stands among the cases, parses without error into a switch node that has a default.
\<close>

theorem switch_single_default:
  \<open>(2 \<le> length (filter (\<lambda>b. b = Block ''default'' []) blocks) \<longrightarrow>
       ''Switch block can only have one "default" block''
          \<in> set (snd (createSwitchBlock svc params blocks))
       \<and> fst (createSwitchBlock svc params blocks) = None)
   \<and> (length params = 1 \<and> list_all wellFormedCase blocks
       \<and> length (filter isDefaultBlock blocks) = 1
       \<and> list_all (accepts svc) (hd params # switchExpressions blocks) \<longrightarrow>
       createSwitchBlock svc params blocks
         = (Some (SwitchBlock (serviceAst svc (hd params))
                    (map (serviceAst svc) (switchExpressions blocks)) True), []))\<close>
proof (intro conjI impI)
  assume a: "2 \<le> length (filter (\<lambda>b. b = Block ''default'' []) blocks)"
  have m: \<open>''Switch block can only have one "default" block'' \<in> set (validateSwitchBlock params blocks)\<close>
    using validateSwitchCases_two[OF a, of False] by (simp add: validateSwitchBlock_def)
  then have ne: "validateSwitchBlock params blocks \<noteq> []" by auto
  have c: "createSwitchBlock svc params blocks = (None, validateSwitchBlock params blocks)"
    using ne by (simp add: createSwitchBlock_def Let_def)
  show \<open>''Switch block can only have one "default" block''
          \<in> set (snd (createSwitchBlock svc params blocks))\<close>
    using m c by simp
  show "fst (createSwitchBlock svc params blocks) = None" using c by simp
next
  assume a: "length params = 1 \<and> list_all wellFormedCase blocks
       \<and> length (filter isDefaultBlock blocks) = 1
       \<and> list_all (accepts svc) (hd params # switchExpressions blocks)"
  have v: "validateSwitchBlock params blocks = []"
    using a validateSwitchCases_ok[of blocks False] by (simp add: validateSwitchBlock_def)
  have "filter isDefaultBlock blocks \<noteq> []" using a by auto
  then have d: "list_ex isDefaultBlock blocks"
    by (simp add: filter_empty_conv list_ex_iff)
  have s: "serviceErrors svc (hd params # switchExpressions blocks) = []"
    using a serviceErrors_accepts by blast
  show "createSwitchBlock svc params blocks
         = (Some (SwitchBlock (serviceAst svc (hd params))
                    (map (serviceAst svc) (switchExpressions blocks)) True), [])"
    unfolding createSwitchBlock_def Let_def caseExpressions_eq using v d s by simp
qed

theorem switch_single_default_witness:
  \<open>2 \<le> length (filter (\<lambda>b. b = Block ''default'' [])
                    [Block ''case'' [''foo''], Block ''default'' [], Block ''default'' []])
   \<and> createSwitchBlock Inr [''cond''] [Block ''case'' [''foo''], Block ''default'' [], Block ''default'' []]
       = (None, [''Switch block can only have one "default" block''])
   \<and> length [''cond.kind''] = 1
   \<and> list_all wellFormedCase [Block ''case'' [''x()''], Block ''default'' [], Block ''case'' [''42'']]
   \<and> createSwitchBlock Inr [''cond.kind'']
         [Block ''case'' [''x()''], Block ''default'' [], Block ''case'' [''42'']]
       = (Some (SwitchBlock ''cond.kind'' [''x()'', ''42''] True), [])
   \<and> createSwitchBlock Inr [''cond.kind'']
         [Block ''default'' [], Block ''case'' [''x()''], Block ''case'' [''42'']]
       = (Some (SwitchBlock ''cond.kind'' [''x()'', ''42''] True), [])\<close>
proof -
  note t1 = switch_single_default[of "[Block ''case'' [''foo''], Block ''default'' [], Block ''default'' []]"
      Inr "[''cond'']"]
  note t2 = switch_single_default[of "[Block ''case'' [''x()''], Block ''default'' [], Block ''case'' [''42'']]"
      Inr "[''cond.kind'']"]
  note t3 = switch_single_default[of "[Block ''default'' [], Block ''case'' [''x()''], Block ''case'' [''42'']]"
      Inr "[''cond.kind'']"]
  have 1: \<open>createSwitchBlock Inr [''cond''] [Block ''case'' [''foo''], Block ''default'' [], Block ''default'' []]
       = (None, [''Switch block can only have one "default" block''])\<close>
    using t1 by (simp add: createSwitchBlock_def validateSwitchBlock_def Let_def)
  have 2: "createSwitchBlock Inr [''cond.kind'']
         [Block ''case'' [''x()''], Block ''default'' [], Block ''case'' [''42'']]
       = (Some (SwitchBlock ''cond.kind'' [''x()'', ''42''] True), [])"
    using t2 by (simp add: serviceAst_def)
  have 3: "createSwitchBlock Inr [''cond.kind'']
         [Block ''default'' [], Block ''case'' [''x()''], Block ''case'' [''42'']]
       = (Some (SwitchBlock ''cond.kind'' [''x()'', ''42''] True), [])"
    using t3 by (simp add: serviceAst_def)
  show ?thesis using 1 2 3 by (intro conjI) simp_all
qed

subsection \<open>Trigger sets\<close>


















end
